theory Spec2Isabelle
  imports Complex_Main
begin

section \<open>The circuit breaker of goBreaker: rolling window and state machine\<close>

text \<open>
  The development embeds \<^verbatim>\<open>circuitBreaker.go\<close> (the breaker) and the window file that
  follows it in the same source (buckets, the rolling window, its constructor).

  Conventions of the embedding.
  \<^item> Integers are values of type \<open>int\<close>; durations and instants count nanoseconds. The
    window computes on \<^verbatim>\<open>int64\<close> with durations the caller chooses: the product
    \<^verbatim>\<open>bucketTime * time.Duration(bucketNums)\<close> and the sums \<^verbatim>\<open>stamp+int64(w.bucketTime)\<close> and
    \<^verbatim>\<open>stamp+int64(w.expireTime)\<close> wrap around, and the model wraps them with \<open>wrap64\<close>.
    Counters, the streak and the ring positions only ever move by one and are not wrapped.
    A \<^verbatim>\<open>time.Time\<close> is its nanosecond count: \<^verbatim>\<open>t.Add(d)\<close> is \<open>t + d\<close>, \<^verbatim>\<open>t.After(u)\<close> is
    \<open>u < t\<close>, and \<^verbatim>\<open>UnixNano()\<close> is the identity on clock readings, which are \<^verbatim>\<open>int64\<close>
    values.
  \<^item> The system clock \<^verbatim>\<open>time.Now\<close> is a function \<open>clk\<close> from the number of readings made so
    far to the instant returned: every call of \<^verbatim>\<open>time.Now()\<close> in the source is one reading
    \<open>clk n\<close>, and each operation returns the advanced reading count with its result.
  \<^item> An index outside a slice panics in Go; the model returns \<open>Inl IndexPanic\<close> there.
  \<^item> Locks are not modelled: every operation runs alone, as it does under the mutexes.
  \<^item> \<^verbatim>\<open>float64\<close> rates are real numbers.
\<close>

subsection \<open>Errors, clock, states\<close>

datatype error = ConfigError | IndexPanic

type_synonym clock = "nat \<Rightarrow> int"

text \<open>
  The value an \<^verbatim>\<open>int64\<close> holds after an addition or multiplication whose exact result is
  \<open>x\<close>: two's complement wrap-around.
\<close>

definition wrap64 :: "int \<Rightarrow> int" where
  "wrap64 x = (x + 2 ^ 63) mod 2 ^ 64 - 2 ^ 63"

datatype State = OPEN | HALFOPEN | CLOSED

fun State_String :: "State \<Rightarrow> string" where
  "State_String OPEN = ''OPEN''"
| "State_String HALFOPEN = ''HALFOPEN''"
| "State_String CLOSED = ''CLOSED''"

definition DEFAULT_COOLING_TIMEOUT :: int where
  "DEFAULT_COOLING_TIMEOUT = 5 * 1000000000"

definition DEFAULT_DETECT_TIMEOUT :: int where
  "DEFAULT_DETECT_TIMEOUT = 200 * 1000000"

definition DEFAULT_HALFOPEN_SUCCESSES :: int where
  "DEFAULT_HALFOPEN_SUCCESSES = 2"

definition DEFAULT_BUCKET_TIME :: int where
  "DEFAULT_BUCKET_TIME = 100 * 1000000"

definition DEFAULT_BUCKET_NUMS :: int where
  "DEFAULT_BUCKET_NUMS = 100"

subsection \<open>Buckets\<close>

record bucket =
  failure :: int
  success :: int
  timeout :: int
  timeStamp :: int

text \<open>\<^verbatim>\<open>new(bucket)\<close>: the zero value.\<close>

definition new_bucket :: bucket where
  "new_bucket = \<lparr>failure = 0, success = 0, timeout = 0, timeStamp = 0\<rparr>"

definition bucket_Reset :: "clock \<Rightarrow> bucket \<Rightarrow> nat \<Rightarrow> bucket \<times> nat" where
  "bucket_Reset clk b n =
     (b\<lparr>failure := 0, success := 0, timeout := 0, timeStamp := clk n\<rparr>, Suc n)"

definition bucket_Fail :: "bucket \<Rightarrow> bucket" where
  "bucket_Fail b = b\<lparr>failure := failure b + 1\<rparr>"

definition bucket_Succeed :: "bucket \<Rightarrow> bucket" where
  "bucket_Succeed b = b\<lparr>success := success b + 1\<rparr>"

definition bucket_Timeout :: "bucket \<Rightarrow> bucket" where
  "bucket_Timeout b = b\<lparr>timeout := timeout b + 1\<rparr>"

definition bucket_Failures :: "bucket \<Rightarrow> int" where
  "bucket_Failures b = failure b"

definition bucket_Successes :: "bucket \<Rightarrow> int" where
  "bucket_Successes b = success b"

definition bucket_Timeouts :: "bucket \<Rightarrow> int" where
  "bucket_Timeouts b = timeout b"

definition bucket_TimeStamp :: "bucket \<Rightarrow> int" where
  "bucket_TimeStamp b = timeStamp b"

subsection \<open>The window\<close>

record window =
  oldest :: int
  latest :: int
  buckets :: "bucket list"
  bucketTime :: int
  bucketNums :: int
  expireTime :: int
  inWindow :: int
  conseErr :: int

text \<open>\<^verbatim>\<open>w.buckets[i]\<close>: the bucket, or the panic of an index out of range.\<close>

definition bucket_at :: "bucket list \<Rightarrow> int \<Rightarrow> error + bucket" where
  "bucket_at bs i = (if 0 \<le> i \<and> i < int (length bs) then Inr (bs ! nat i) else Inl IndexPanic)"

text \<open>
  \<^verbatim>\<open>window.Reset\<close>: the ring positions are reset and only the bucket at \<open>latest\<close> (slot 0)
  is re-initialised; the other slots keep their counters and stamps.
\<close>

definition window_Reset :: "clock \<Rightarrow> window \<Rightarrow> nat \<Rightarrow> error + (window \<times> nat)" where
  "window_Reset clk w n =
     (let w1 = w\<lparr>oldest := 0, latest := 0, inWindow := 1, conseErr := 0\<rparr> in
      case bucket_at (buckets w1) (latest w1) of
        Inl e \<Rightarrow> Inl e
      | Inr b \<Rightarrow>
          (case bucket_Reset clk b n of
             (b', n1) \<Rightarrow> Inr (w1\<lparr>buckets := (buckets w1)[nat (latest w1) := b']\<rparr>, n1)))"

text \<open>
  \<^verbatim>\<open>NewWindowWithOptions\<close>. The buckets are distinct fresh objects, so the slice of
  pointers is a list of bucket values.
\<close>

definition NewWindowWithOptions :: "clock \<Rightarrow> int \<Rightarrow> int \<Rightarrow> nat \<Rightarrow> error + (window \<times> nat)" where
  "NewWindowWithOptions clk bucketTime' bucketNums' n =
     (if bucketNums' < 100 then Inl ConfigError
      else
        window_Reset clk
          \<lparr>oldest = 0, latest = 0,
           buckets = replicate (nat bucketNums') new_bucket,
           bucketTime = bucketTime', bucketNums = bucketNums',
           expireTime = wrap64 (bucketTime' * bucketNums'),
           inWindow = 0, conseErr = 0\<rparr> n)"

text \<open>
  \<^verbatim>\<open>window.latestBucket\<close>: returns the index of the writable bucket (the source returns
  the pointer stored at that index). The clock is read once for the comparison and once
  more by \<^verbatim>\<open>bucket.Reset\<close> when the ring advances.
\<close>

definition latestBucket :: "clock \<Rightarrow> window \<Rightarrow> nat \<Rightarrow> error + (int \<times> window \<times> nat)" where
  "latestBucket clk w n =
     (case bucket_at (buckets w) (latest w) of
        Inl e \<Rightarrow> Inl e
      | Inr lastestBucket \<Rightarrow>
          (let stamp = bucket_TimeStamp lastestBucket;
               now = clk n;
               n1 = Suc n
           in if wrap64 (stamp + bucketTime w) \<le> now then
                (let w1 = w\<lparr>latest := latest w + 1\<rparr>;
                     w2 = (if latest w1 \<ge> bucketNums w1 then w1\<lparr>latest := 0\<rparr> else w1);
                     w3 = (if inWindow w2 = bucketNums w2 then
                             (let w' = w2\<lparr>oldest := oldest w2 + 1\<rparr>
                              in if oldest w' \<ge> bucketNums w' then w'\<lparr>oldest := 0\<rparr> else w')
                           else w2\<lparr>inWindow := inWindow w2 + 1\<rparr>)
                 in case bucket_at (buckets w3) (latest w3) of
                      Inl e \<Rightarrow> Inl e
                    | Inr b \<Rightarrow>
                        (case bucket_Reset clk b n1 of
                           (b', n2) \<Rightarrow>
                             Inr (latest w3,
                                  w3\<lparr>buckets := (buckets w3)[nat (latest w3) := b']\<rparr>, n2)))
              else Inr (latest w, w, n1)))"

text \<open>
  \<^verbatim>\<open>window.Fail\<close>, \<^verbatim>\<open>window.Succeed\<close>, \<^verbatim>\<open>window.Timeout\<close>: locate the writable bucket,
  update the streak, then bump the counter of that bucket.
\<close>

definition window_Fail :: "clock \<Rightarrow> window \<Rightarrow> nat \<Rightarrow> error + (window \<times> nat)" where
  "window_Fail clk w n =
     (case latestBucket clk w n of
        Inl e \<Rightarrow> Inl e
      | Inr (i, w1, n1) \<Rightarrow>
          (let w2 = w1\<lparr>conseErr := conseErr w1 + 1\<rparr>
           in Inr (w2\<lparr>buckets := (buckets w2)[nat i := bucket_Fail (buckets w2 ! nat i)]\<rparr>, n1)))"

definition window_Succeed :: "clock \<Rightarrow> window \<Rightarrow> nat \<Rightarrow> error + (window \<times> nat)" where
  "window_Succeed clk w n =
     (case latestBucket clk w n of
        Inl e \<Rightarrow> Inl e
      | Inr (i, w1, n1) \<Rightarrow>
          (let w2 = w1\<lparr>conseErr := 0\<rparr>
           in Inr (w2\<lparr>buckets := (buckets w2)[nat i := bucket_Succeed (buckets w2 ! nat i)]\<rparr>, n1)))"

definition window_Timeout :: "clock \<Rightarrow> window \<Rightarrow> nat \<Rightarrow> error + (window \<times> nat)" where
  "window_Timeout clk w n =
     (case latestBucket clk w n of
        Inl e \<Rightarrow> Inl e
      | Inr (i, w1, n1) \<Rightarrow>
          (let w2 = w1\<lparr>conseErr := conseErr w1 + 1\<rparr>
           in Inr (w2\<lparr>buckets := (buckets w2)[nat i := bucket_Timeout (buckets w2 ! nat i)]\<rparr>, n1)))"

text \<open>
  \<^verbatim>\<open>window.expire\<close>: one clock reading, then the loop that drops expired buckets from
  the \<open>oldest\<close> end. The loop ends because \<open>inWindow\<close> decreases.
\<close>

function expire_loop :: "int \<Rightarrow> window \<Rightarrow> error + window" where
  "expire_loop now w =
     (if inWindow w > 0 then
        (case bucket_at (buckets w) (oldest w) of
           Inl e \<Rightarrow> Inl e
         | Inr oldestBucket \<Rightarrow>
             if wrap64 (bucket_TimeStamp oldestBucket + expireTime w) \<le> now then
               expire_loop now
                 ((if oldest w + 1 = bucketNums w then w\<lparr>oldest := 0\<rparr>
                   else w\<lparr>oldest := oldest w + 1\<rparr>)\<lparr>inWindow := inWindow w - 1\<rparr>)
             else Inr w)
      else Inr w)"
  by pat_completeness auto
termination
  by (relation "measure (\<lambda>(now, w). nat (inWindow w))") auto

declare expire_loop.simps [simp del]

definition expire :: "clock \<Rightarrow> window \<Rightarrow> nat \<Rightarrow> error + ((int \<times> int) \<times> window \<times> nat)" where
  "expire clk w n =
     (case expire_loop (clk n) w of
        Inl e \<Rightarrow> Inl e
      | Inr w' \<Rightarrow> Inr ((oldest w', inWindow w'), w', Suc n))"

text \<open>
  The summing loop of \<^verbatim>\<open>window.Counts\<close>; the accumulator is
  \<open>(successes, failures, timeouts)\<close>.
\<close>

function counts_loop :: "window \<Rightarrow> int \<Rightarrow> int \<Rightarrow> int \<times> int \<times> int \<Rightarrow> error + (int \<times> int \<times> int)" where
  "counts_loop w oldest' remain (successes, failures, timeouts) =
     (if remain > 0 then
        (case bucket_at (buckets w) oldest' of
           Inl e \<Rightarrow> Inl e
         | Inr b \<Rightarrow>
             counts_loop w (if oldest' + 1 \<ge> bucketNums w then 0 else oldest' + 1) (remain - 1)
               (successes + bucket_Successes b, failures + bucket_Failures b,
                timeouts + bucket_Timeouts b))
      else Inr (successes, failures, timeouts))"
  by pat_completeness auto
termination
  by (relation "measure (\<lambda>(w, oldest', remain, acc). nat remain)") auto

declare counts_loop.simps [simp del]

definition window_Counts :: "clock \<Rightarrow> window \<Rightarrow> nat \<Rightarrow> error + ((int \<times> int \<times> int) \<times> window \<times> nat)" where
  "window_Counts clk w n =
     (case expire clk w n of
        Inl e \<Rightarrow> Inl e
      | Inr ((oldest', remain), w1, n1) \<Rightarrow>
          (case counts_loop w1 oldest' remain (0, 0, 0) of
             Inl e \<Rightarrow> Inl e
           | Inr c \<Rightarrow> Inr (c, w1, n1)))"

definition window_Successes :: "clock \<Rightarrow> window \<Rightarrow> nat \<Rightarrow> error + (int \<times> window \<times> nat)" where
  "window_Successes clk w n =
     (case window_Counts clk w n of
        Inl e \<Rightarrow> Inl e
      | Inr ((successes, failures, timeouts), w1, n1) \<Rightarrow> Inr (successes, w1, n1))"

definition window_Failures :: "clock \<Rightarrow> window \<Rightarrow> nat \<Rightarrow> error + (int \<times> window \<times> nat)" where
  "window_Failures clk w n =
     (case window_Counts clk w n of
        Inl e \<Rightarrow> Inl e
      | Inr ((successes, failures, timeouts), w1, n1) \<Rightarrow> Inr (failures, w1, n1))"

definition window_Timeouts :: "clock \<Rightarrow> window \<Rightarrow> nat \<Rightarrow> error + (int \<times> window \<times> nat)" where
  "window_Timeouts clk w n =
     (case window_Counts clk w n of
        Inl e \<Rightarrow> Inl e
      | Inr ((successes, failures, timeouts), w1, n1) \<Rightarrow> Inr (timeouts, w1, n1))"

definition window_ConsecutiveErrors :: "window \<Rightarrow> int" where
  "window_ConsecutiveErrors w = conseErr w"

definition window_ErrorRate :: "clock \<Rightarrow> window \<Rightarrow> nat \<Rightarrow> error + (real \<times> window \<times> nat)" where
  "window_ErrorRate clk w n =
     (case window_Counts clk w n of
        Inl e \<Rightarrow> Inl e
      | Inr ((successes, failures, timeouts), w1, n1) \<Rightarrow>
          if successes + failures + timeouts = 0 then Inr (0, w1, n1)
          else Inr (real_of_int (failures + timeouts) / real_of_int (successes + failures + timeouts),
                    w1, n1))"

definition window_Samples :: "clock \<Rightarrow> window \<Rightarrow> nat \<Rightarrow> error + (int \<times> window \<times> nat)" where
  "window_Samples clk w n =
     (case window_Counts clk w n of
        Inl e \<Rightarrow> Inl e
      | Inr ((successes, failures, timeouts), w1, n1) \<Rightarrow>
          Inr (successes + failures + timeouts, w1, n1))"

subsection \<open>Trip predicates and the state-change handler\<close>

text \<open>
  A \<^verbatim>\<open>TripFunc\<close> and a \<^verbatim>\<open>StateChangeHandler\<close> are Go functions that receive the
  container. Through its methods they may read the clock and change the window (even the
  read methods prune expired buckets), so each is a function on the window and the
  reading count; \<open>None\<close> is the nil function.
\<close>

type_synonym TripFunc = "clock \<Rightarrow> window \<Rightarrow> nat \<Rightarrow> error + (bool \<times> window \<times> nat)"

type_synonym StateChangeHandler =
  "State \<Rightarrow> State \<Rightarrow> clock \<Rightarrow> window \<Rightarrow> nat \<Rightarrow> error + (window \<times> nat)"

definition ThresholdTripFunc :: "int \<Rightarrow> TripFunc" where
  "ThresholdTripFunc threshold = (\<lambda>clk m n.
     case window_Failures clk m n of
       Inl e \<Rightarrow> Inl e
     | Inr (f, m1, n1) \<Rightarrow>
         (case window_Timeouts clk m1 n1 of
            Inl e \<Rightarrow> Inl e
          | Inr (t, m2, n2) \<Rightarrow> Inr (f + t \<ge> threshold, m2, n2)))"

definition ConsecutiveTripFunc :: "int \<Rightarrow> TripFunc" where
  "ConsecutiveTripFunc threshold = (\<lambda>clk m n.
     Inr (window_ConsecutiveErrors m \<ge> threshold, m, n))"

text \<open>\<^verbatim>\<open>&&\<close> does not evaluate \<^verbatim>\<open>m.ErrorRate()\<close> when the sample test fails.\<close>

definition RateTripFunc :: "real \<Rightarrow> int \<Rightarrow> TripFunc" where
  "RateTripFunc rate minSamples = (\<lambda>clk m n.
     case window_Samples clk m n of
       Inl e \<Rightarrow> Inl e
     | Inr (samples, m1, n1) \<Rightarrow>
         if samples \<ge> minSamples then
           (case window_ErrorRate clk m1 n1 of
              Inl e \<Rightarrow> Inl e
            | Inr (r, m2, n2) \<Rightarrow> Inr (r \<ge> rate, m2, n2))
         else Inr (False, m1, n1))"

subsection \<open>The breaker\<close>

record Options =
  BucketTime :: int
  BucketNums :: int
  BreakerRate :: real
  BreakerMinQPS :: int
  BreakerMinSamples :: int
  CoolingTimeout :: int
  DetectTimeout :: int
  HalfOpenSuccess :: int
  ShouldTrip :: "TripFunc option"
  StateChangeHandler :: "StateChangeHandler option"
  now :: "clock option"

record Breaker =
  Container :: window
  state :: State
  openTime :: int
  lastRetryTime :: int
  halfopenSuccess :: int
  options :: Options
  breaker_now :: "clock option"

text \<open>
  \<^verbatim>\<open>NewBreaker\<close>, in two parts. The first is the run of \<^verbatim>\<open>if\<close> statements that puts
  defaults into the options; the second builds the window and the breaker. The constants
  \<^verbatim>\<open>DEFAULT_BREAKER_RATE\<close> and \<^verbatim>\<open>DEFAULT_BREAKER_MINSAMPLES\<close> are used by the source but
  declared in none of its files; they are the first two parameters. \<open>clk\<close> is
  \<^verbatim>\<open>time.Now\<close>. The options stored in the breaker are a fresh literal that leaves
  \<^verbatim>\<open>BreakerMinQPS\<close> at zero.
\<close>

definition NewBreaker_defaults :: "real \<Rightarrow> int \<Rightarrow> clock \<Rightarrow> Options \<Rightarrow> Options" where
  "NewBreaker_defaults DEFAULT_BREAKER_RATE DEFAULT_BREAKER_MINSAMPLES clk options0 =
     (let o1 = (if now options0 = None then options0\<lparr>now := Some clk\<rparr> else options0);
          o2 = (if BucketTime o1 \<le> 0 then o1\<lparr>BucketTime := DEFAULT_BUCKET_TIME\<rparr> else o1);
          o3 = (if BucketNums o2 \<le> 0 then o2\<lparr>BucketNums := DEFAULT_BUCKET_NUMS\<rparr> else o2);
          o4 = (if CoolingTimeout o3 \<le> 0 then o3\<lparr>CoolingTimeout := DEFAULT_COOLING_TIMEOUT\<rparr> else o3);
          o5 = (if DetectTimeout o4 \<le> 0 then o4\<lparr>DetectTimeout := DEFAULT_DETECT_TIMEOUT\<rparr> else o4);
          o6 = (if HalfOpenSuccess o5 \<le> 0 then o5\<lparr>HalfOpenSuccess := DEFAULT_HALFOPEN_SUCCESSES\<rparr> else o5);
          o7 = (if BreakerRate o6 \<le> 0 then o6\<lparr>BreakerRate := DEFAULT_BREAKER_RATE\<rparr> else o6);
          o8 = (if BreakerMinSamples o7 \<le> 0
                then o7\<lparr>BreakerMinSamples := DEFAULT_BREAKER_MINSAMPLES\<rparr> else o7)
      in if ShouldTrip o8 = None
         then o8\<lparr>ShouldTrip := Some (RateTripFunc (BreakerRate o8) (BreakerMinSamples o8))\<rparr>
         else o8)"

definition NewBreaker :: "real \<Rightarrow> int \<Rightarrow> clock \<Rightarrow> Options \<Rightarrow> nat \<Rightarrow> error + (Breaker \<times> nat)" where
  "NewBreaker DEFAULT_BREAKER_RATE DEFAULT_BREAKER_MINSAMPLES clk options0 n =
     (let options1 = NewBreaker_defaults DEFAULT_BREAKER_RATE DEFAULT_BREAKER_MINSAMPLES clk options0
      in case NewWindowWithOptions clk (BucketTime options1) (BucketNums options1) n of
           Inl err \<Rightarrow> Inl err
         | Inr (container, n1) \<Rightarrow>
             Inr (\<lparr>Container = container, state = CLOSED, openTime = 0, lastRetryTime = 0,
                   halfopenSuccess = 0,
                   options =
                     \<lparr>BucketTime = BucketTime options1, BucketNums = BucketNums options1,
                      BreakerRate = BreakerRate options1, BreakerMinQPS = 0,
                      BreakerMinSamples = BreakerMinSamples options1,
                      CoolingTimeout = CoolingTimeout options1,
                      DetectTimeout = DetectTimeout options1,
                      HalfOpenSuccess = HalfOpenSuccess options1,
                      ShouldTrip = ShouldTrip options1,
                      StateChangeHandler = StateChangeHandler options1, now = now options1\<rparr>,
                   breaker_now = now options1\<rparr>, n1))"

text \<open>
  The guarded call \<^verbatim>\<open>if b.options.StateChangeHandler != nil { ...(old, new, b.Container) }\<close>.
\<close>

definition notify :: "Breaker \<Rightarrow> State \<Rightarrow> State \<Rightarrow> clock \<Rightarrow> nat \<Rightarrow> error + (Breaker \<times> nat)" where
  "notify b oldState newState clk n =
     (case StateChangeHandler (options b) of
        None \<Rightarrow> Inr (b, n)
      | Some h \<Rightarrow>
          (case h oldState newState clk (Container b) n of
             Inl e \<Rightarrow> Inl e
           | Inr (m, n1) \<Rightarrow> Inr (b\<lparr>Container := m\<rparr>, n1)))"

definition Breaker_Succeed :: "clock \<Rightarrow> Breaker \<Rightarrow> nat \<Rightarrow> error + (Breaker \<times> nat)" where
  "Breaker_Succeed clk b n =
     (case state b of
        OPEN \<Rightarrow> Inr (b, n)
      | HALFOPEN \<Rightarrow>
          (let b1 = b\<lparr>halfopenSuccess := halfopenSuccess b + 1\<rparr>
           in if halfopenSuccess b1 = HalfOpenSuccess (options b1) then
                (case notify b1 HALFOPEN CLOSED clk n of
                   Inl e \<Rightarrow> Inl e
                 | Inr (b2, n1) \<Rightarrow>
                     (case window_Reset clk (Container b2) n1 of
                        Inl e \<Rightarrow> Inl e
                      | Inr (m, n2) \<Rightarrow> Inr (b2\<lparr>Container := m, state := CLOSED\<rparr>, n2)))
              else Inr (b1, n))
      | CLOSED \<Rightarrow>
          (case window_Succeed clk (Container b) n of
             Inl e \<Rightarrow> Inl e
           | Inr (m, n1) \<Rightarrow> Inr (b\<lparr>Container := m\<rparr>, n1)))"

text \<open>
  \<^verbatim>\<open>Breaker.error\<close>. The outcome is recorded into the container before the switch on the
  state, whatever the state is. \<^verbatim>\<open>trip != nil && trip(b)\<close> calls the predicate only when
  it is not nil.
\<close>

definition Breaker_error :: "bool \<Rightarrow> TripFunc option \<Rightarrow> clock \<Rightarrow> Breaker \<Rightarrow> nat \<Rightarrow> error + (Breaker \<times> nat)" where
  "Breaker_error isTimeout trip clk b n =
     (case (if isTimeout then window_Timeout clk (Container b) n
            else window_Fail clk (Container b) n) of
        Inl e \<Rightarrow> Inl e
      | Inr (m, n1) \<Rightarrow>
          (let b1 = b\<lparr>Container := m\<rparr> in
           case state b1 of
             OPEN \<Rightarrow> Inr (b1, n1)
           | HALFOPEN \<Rightarrow>
               (case notify b1 HALFOPEN OPEN clk n1 of
                  Inl e \<Rightarrow> Inl e
                | Inr (b2, n2) \<Rightarrow> Inr (b2\<lparr>openTime := clk n2, state := OPEN\<rparr>, Suc n2))
           | CLOSED \<Rightarrow>
               (case trip of
                  None \<Rightarrow> Inr (b1, n1)
                | Some tf \<Rightarrow>
                    (case tf clk (Container b1) n1 of
                       Inl e \<Rightarrow> Inl e
                     | Inr (tripped, m2, n2) \<Rightarrow>
                         (let b2 = b1\<lparr>Container := m2\<rparr> in
                          if tripped then
                            (case notify b2 CLOSED OPEN clk n2 of
                               Inl e \<Rightarrow> Inl e
                             | Inr (b3, n3) \<Rightarrow>
                                 Inr (b3\<lparr>openTime := clk n3, state := OPEN\<rparr>, Suc n3))
                          else Inr (b2, n2))))))"

definition Breaker_Fail :: "clock \<Rightarrow> Breaker \<Rightarrow> nat \<Rightarrow> error + (Breaker \<times> nat)" where
  "Breaker_Fail clk b n = Breaker_error False (ShouldTrip (options b)) clk b n"

definition Breaker_FailWithTrip :: "TripFunc option \<Rightarrow> clock \<Rightarrow> Breaker \<Rightarrow> nat \<Rightarrow> error + (Breaker \<times> nat)" where
  "Breaker_FailWithTrip trip clk b n = Breaker_error False trip clk b n"

definition Breaker_Timeout :: "clock \<Rightarrow> Breaker \<Rightarrow> nat \<Rightarrow> error + (Breaker \<times> nat)" where
  "Breaker_Timeout clk b n = Breaker_error True (ShouldTrip (options b)) clk b n"

definition Breaker_TimeoutWithTrip :: "TripFunc option \<Rightarrow> clock \<Rightarrow> Breaker \<Rightarrow> nat \<Rightarrow> error + (Breaker \<times> nat)" where
  "Breaker_TimeoutWithTrip trip clk b n = Breaker_error True trip clk b n"

text \<open>
  \<^verbatim>\<open>Breaker.isAllowed\<close>. The instant compared with the timers is a reading of
  \<^verbatim>\<open>time.Now()\<close>, that is of \<open>clk\<close>; the field \<open>breaker_now\<close> is not consulted.
\<close>

definition Breaker_isAllowed :: "clock \<Rightarrow> Breaker \<Rightarrow> nat \<Rightarrow> bool \<times> Breaker \<times> nat" where
  "Breaker_isAllowed clk b n =
     (case state b of
        OPEN \<Rightarrow>
          (let now' = clk n in
           if now' < openTime b + CoolingTimeout (options b) then (False, b, Suc n)
           else (True, b\<lparr>state := HALFOPEN, halfopenSuccess := 0, lastRetryTime := now'\<rparr>, Suc n))
      | HALFOPEN \<Rightarrow>
          (let now' = clk n in
           if now' < lastRetryTime b + DetectTimeout (options b) then (False, b, Suc n)
           else (True, b\<lparr>lastRetryTime := now'\<rparr>, Suc n))
      | CLOSED \<Rightarrow> (True, b, n))"

definition Breaker_IsAllowed :: "clock \<Rightarrow> Breaker \<Rightarrow> nat \<Rightarrow> bool \<times> Breaker \<times> nat" where
  "Breaker_IsAllowed clk b n = Breaker_isAllowed clk b n"

definition Breaker_State :: "Breaker \<Rightarrow> State" where
  "Breaker_State b = state b"

definition Breaker_Reset :: "clock \<Rightarrow> Breaker \<Rightarrow> nat \<Rightarrow> error + (Breaker \<times> nat)" where
  "Breaker_Reset clk b n =
     (case window_Reset clk (Container b) n of
        Inl e \<Rightarrow> Inl e
      | Inr (m, n1) \<Rightarrow> Inr (b\<lparr>Container := m, state := CLOSED\<rparr>, n1))"

text \<open>
  The handler \<^verbatim>\<open>GenBreaker\<close> installs when the options name none. It reads
  \<^verbatim>\<open>Successes\<close>, \<^verbatim>\<open>Failures\<close>, \<^verbatim>\<open>Timeouts\<close> and \<^verbatim>\<open>ErrorRate\<close> of the container for its
  log line; the line itself is not modelled.
\<close>

definition GenBreaker_callback :: StateChangeHandler where
  "GenBreaker_callback = (\<lambda>oldState newState clk m n.
     case window_Successes clk m n of
       Inl e \<Rightarrow> Inl e
     | Inr (s, m1, n1) \<Rightarrow>
         (case window_Failures clk m1 n1 of
            Inl e \<Rightarrow> Inl e
          | Inr (f, m2, n2) \<Rightarrow>
              (case window_Timeouts clk m2 n2 of
                 Inl e \<Rightarrow> Inl e
               | Inr (t, m3, n3) \<Rightarrow>
                   (case window_ErrorRate clk m3 n3 of
                      Inl e \<Rightarrow> Inl e
                    | Inr (r, m4, n4) \<Rightarrow> Inr (m4, n4)))))"

section \<open>Notions used to state the properties\<close>

text \<open>
  A window is well formed when its indices lie inside the ring and the ring has the
  declared number of slots. Every window built by the constructor is well formed and the
  operations keep it so (shown below), so no operation on it panics.
\<close>


definition wf_window :: "window \<Rightarrow> bool" where
  "wf_window w \<longleftrightarrow>
     bucketNums w = int (length (buckets w)) \<and>
     0 \<le> oldest w \<and> oldest w < bucketNums w \<and>
     0 \<le> latest w \<and> latest w < bucketNums w \<and>
     0 \<le> inWindow w \<and> inWindow w \<le> bucketNums w"

text \<open>
  The bucket at \<open>latest\<close>; whether a write at the next clock reading opens a new bucket;
  and the bucket such a write finds: the current one, or a fresh one stamped by the
  second clock reading of \<^verbatim>\<open>latestBucket\<close>.
\<close>

definition current_bucket :: "window \<Rightarrow> bucket" where
  "current_bucket w = buckets w ! nat (latest w)"

definition ring_advances :: "clock \<Rightarrow> window \<Rightarrow> nat \<Rightarrow> bool" where
  "ring_advances clk w n \<longleftrightarrow> wrap64 (timeStamp (current_bucket w) + bucketTime w) \<le> clk n"

definition writable_bucket :: "clock \<Rightarrow> window \<Rightarrow> nat \<Rightarrow> bucket" where
  "writable_bucket clk w n =
     (if ring_advances clk w n
      then \<lparr>failure = 0, success = 0, timeout = 0, timeStamp = clk (Suc n)\<rparr>
      else current_bucket w)"

text \<open>
  A trip predicate or handler that only observes: on a well-formed window it returns,
  and it leaves the buckets, the write position and the streak as they were. It may
  still prune expired buckets, as the read methods of the window do.
\<close>

definition observer_trip :: "TripFunc \<Rightarrow> bool" where
  "observer_trip tf \<longleftrightarrow>
     (\<forall>clk m n. wf_window m \<longrightarrow>
        (\<exists>r m' n'. tf clk m n = Inr (r, m', n') \<and> wf_window m' \<and>
           buckets m' = buckets m \<and> latest m' = latest m \<and> conseErr m' = conseErr m))"

definition observer_handler :: "StateChangeHandler \<Rightarrow> bool" where
  "observer_handler h \<longleftrightarrow>
     (\<forall>s s' clk m n. wf_window m \<longrightarrow>
        (\<exists>m' n'. h s s' clk m n = Inr (m', n') \<and> wf_window m' \<and>
           buckets m' = buckets m \<and> latest m' = latest m \<and> conseErr m' = conseErr m))"


text \<open>
  What a write leaves behind, stated on the counters. After a recorded failure the bucket
  at \<open>latest\<close> has one failure more than the bucket the write found, and the same
  successes, timeouts and stamp; likewise for a timeout and for a success.
\<close>

definition failure_counted :: "clock \<Rightarrow> window \<Rightarrow> nat \<Rightarrow> window \<Rightarrow> bool" where
  "failure_counted clk w n w' \<longleftrightarrow>
     failure (current_bucket w') = failure (writable_bucket clk w n) + 1 \<and>
     success (current_bucket w') = success (writable_bucket clk w n) \<and>
     timeout (current_bucket w') = timeout (writable_bucket clk w n) \<and>
     timeStamp (current_bucket w') = timeStamp (writable_bucket clk w n)"

definition timeout_counted :: "clock \<Rightarrow> window \<Rightarrow> nat \<Rightarrow> window \<Rightarrow> bool" where
  "timeout_counted clk w n w' \<longleftrightarrow>
     timeout (current_bucket w') = timeout (writable_bucket clk w n) + 1 \<and>
     failure (current_bucket w') = failure (writable_bucket clk w n) \<and>
     success (current_bucket w') = success (writable_bucket clk w n) \<and>
     timeStamp (current_bucket w') = timeStamp (writable_bucket clk w n)"

definition success_counted :: "clock \<Rightarrow> window \<Rightarrow> nat \<Rightarrow> window \<Rightarrow> bool" where
  "success_counted clk w n w' \<longleftrightarrow>
     success (current_bucket w') = success (writable_bucket clk w n) + 1 \<and>
     failure (current_bucket w') = failure (writable_bucket clk w n) \<and>
     timeout (current_bucket w') = timeout (writable_bucket clk w n) \<and>
     timeStamp (current_bucket w') = timeStamp (writable_bucket clk w n)"


text \<open>
  Sequences of operations on a window, run one after the other on the same clock. Since
  the clock is an arbitrary function, the operations happen at arbitrary times.
\<close>

datatype window_op = Op_Succeed | Op_Fail | Op_Timeout | Op_Counts | Op_Reset

fun window_apply :: "clock \<Rightarrow> window_op \<Rightarrow> window \<Rightarrow> nat \<Rightarrow> error + (window \<times> nat)" where
  "window_apply clk Op_Succeed w n = window_Succeed clk w n"
| "window_apply clk Op_Fail w n = window_Fail clk w n"
| "window_apply clk Op_Timeout w n = window_Timeout clk w n"
| "window_apply clk Op_Counts w n =
     (case window_Counts clk w n of Inl e \<Rightarrow> Inl e | Inr (c, w', n') \<Rightarrow> Inr (w', n'))"
| "window_apply clk Op_Reset w n = window_Reset clk w n"

fun window_run :: "clock \<Rightarrow> window_op list \<Rightarrow> window \<Rightarrow> nat \<Rightarrow> error + (window \<times> nat)" where
  "window_run clk [] w n = Inr (w, n)"
| "window_run clk (x # xs) w n =
     (case window_apply clk x w n of Inl e \<Rightarrow> Inl e | Inr (w', n') \<Rightarrow> window_run clk xs w' n')"

text \<open>
  The part of the ring that is in the window: the \<open>inWindow\<close> slots from \<open>oldest\<close> on,
  wrapping at the end of the ring (\<open>ring_index N i k\<close> is the slot \<open>k\<close> places after \<open>i\<close>).
\<close>

definition ring_index :: "int \<Rightarrow> int \<Rightarrow> int \<Rightarrow> int" where
  "ring_index N i k = (if i + k < N then i + k else i + k - N)"

definition ring_slots :: "bucket list \<Rightarrow> int \<Rightarrow> int \<Rightarrow> int \<Rightarrow> bucket list" where
  "ring_slots bs N i r = map (\<lambda>k. bs ! nat (ring_index N i (int k))) [0..<nat r]"

definition window_slots :: "window \<Rightarrow> bucket list" where
  "window_slots w = ring_slots (buckets w) (bucketNums w) (oldest w) (inWindow w)"


definition live :: "int \<Rightarrow> window \<Rightarrow> bucket \<Rightarrow> bool" where
  "live t w b \<longleftrightarrow> t < timeStamp b + expireTime w"




text \<open>
  The range of \<^verbatim>\<open>int64\<close>. A clock and a window length are within range when every reading
  is an \<^verbatim>\<open>int64\<close> value and adding the window length to a reading does not overflow;
  then \<^verbatim>\<open>stamp+int64(w.expireTime)\<close> is the exact sum for every stamp the clock gives.
\<close>

definition int64_range :: "int \<Rightarrow> bool" where
  "int64_range x \<longleftrightarrow> - (2 ^ 63) \<le> x \<and> x < 2 ^ 63"





text \<open>Sequences of calls on a breaker; the answer of \<^verbatim>\<open>IsAllowed\<close> is dropped.\<close>

datatype breaker_op =
  B_Succeed | B_Fail | B_Timeout | B_FailWithTrip "TripFunc option"
  | B_TimeoutWithTrip "TripFunc option" | B_IsAllowed | B_Reset

fun Breaker_apply :: "clock \<Rightarrow> breaker_op \<Rightarrow> Breaker \<Rightarrow> nat \<Rightarrow> error + (Breaker \<times> nat)" where
  "Breaker_apply clk B_Succeed b n = Breaker_Succeed clk b n"
| "Breaker_apply clk B_Fail b n = Breaker_Fail clk b n"
| "Breaker_apply clk B_Timeout b n = Breaker_Timeout clk b n"
| "Breaker_apply clk (B_FailWithTrip trip) b n = Breaker_FailWithTrip trip clk b n"
| "Breaker_apply clk (B_TimeoutWithTrip trip) b n = Breaker_TimeoutWithTrip trip clk b n"
| "Breaker_apply clk B_IsAllowed b n = (case Breaker_IsAllowed clk b n of (r, b', n') \<Rightarrow> Inr (b', n'))"
| "Breaker_apply clk B_Reset b n = Breaker_Reset clk b n"

fun Breaker_run :: "clock \<Rightarrow> breaker_op list \<Rightarrow> Breaker \<Rightarrow> nat \<Rightarrow> error + (Breaker \<times> nat)" where
  "Breaker_run clk [] b n = Inr (b, n)"
| "Breaker_run clk (x # xs) b n =
     (case Breaker_apply clk x b n of Inl e \<Rightarrow> Inl e | Inr (b', n') \<Rightarrow> Breaker_run clk xs b' n')"

section \<open>Concrete breakers\<close>

text \<open>
  A clock that always reads 0, options that rely on the defaults and trip on the first
  error, the breaker \<^verbatim>\<open>NewBreaker\<close> builds from them, and that breaker after one \<^verbatim>\<open>Fail\<close>
  (shown below to be exactly what the calls return).
\<close>

definition frozen_clock :: clock where
  "frozen_clock = (\<lambda>n. 0)"

definition demo_options :: Options where
  "demo_options =
     \<lparr>BucketTime = 0, BucketNums = 0, BreakerRate = 1 / 2, BreakerMinQPS = 0,
      BreakerMinSamples = 10, CoolingTimeout = 0, DetectTimeout = 0, HalfOpenSuccess = 0,
      ShouldTrip = Some (ConsecutiveTripFunc 1), StateChangeHandler = None, now = None\<rparr>"

definition demo_window :: window where
  "demo_window =
     \<lparr>oldest = 0, latest = 0, buckets = replicate 100 new_bucket,
      bucketTime = 100000000, bucketNums = 100, expireTime = 10000000000,
      inWindow = 1, conseErr = 0\<rparr>"

definition demo_breaker :: Breaker where
  "demo_breaker =
     \<lparr>Container = demo_window, state = CLOSED, openTime = 0, lastRetryTime = 0,
      halfopenSuccess = 0,
      options = demo_options
        \<lparr>BucketTime := 100000000, BucketNums := 100, CoolingTimeout := 5000000000,
         DetectTimeout := 200000000, HalfOpenSuccess := 2, now := Some frozen_clock\<rparr>,
      breaker_now = Some frozen_clock\<rparr>"

definition open_breaker :: Breaker where
  "open_breaker =
     demo_breaker
       \<lparr>Container := demo_window
          \<lparr>conseErr := 1,
           buckets := (replicate 100 new_bucket)
             [0 := \<lparr>failure = 1, success = 0, timeout = 0, timeStamp = 0\<rparr>]\<rparr>,
        state := OPEN\<rparr>"

text \<open>The open breaker after the admission at 5001 ms that starts probing.\<close>

definition halfopen_breaker :: Breaker where
  "halfopen_breaker = open_breaker\<lparr>state := HALFOPEN, halfopenSuccess := 0, lastRetryTime := 5001000000\<rparr>"

text \<open>
  A breaker that tripped on its first failure and went on receiving reports: three
  buckets of the ring hold counts. It is reached from the breaker above by five
  successes, four failures and a timeout under the clock \<open>busy_clock\<close> (shown below).
\<close>

definition busy_clock :: clock where
  "busy_clock n = (if n < 8 then 0 else if n < 11 then 100000000 else 200000000)"


definition busy_breaker :: Breaker where
  "busy_breaker =
     demo_breaker
       \<lparr>Container := demo_window
          \<lparr>latest := 2, inWindow := 3, conseErr := 5,
           buckets := (replicate 100 new_bucket)
             [0 := \<lparr>failure = 1, success = 5, timeout = 0, timeStamp = 0\<rparr>,
              1 := \<lparr>failure = 2, success = 0, timeout = 0, timeStamp = 100000000\<rparr>,
              2 := \<lparr>failure = 1, success = 0, timeout = 1, timeStamp = 200000000\<rparr>]\<rparr>,
        state := OPEN\<rparr>"

text \<open>
  Two clocks. The first reads 0 once and 10 s from then on. The second reads 0 twice and
  100 ms from then on.
\<close>

definition idle_clock :: clock where
  "idle_clock n = (if n = 0 then 0 else 10000000000)"


section \<open>Arithmetic on \<^verbatim>\<open>int64\<close>\<close>


lemma wrap64_range: "int64_range (wrap64 x)"
  by (simp add: wrap64_def int64_range_def)

section \<open>The window: no panic, and what a write records\<close>

lemma bucket_zeroed [simp]:
  "(b::bucket)\<lparr>failure := 0, success := 0, timeout := 0, timeStamp := t\<rparr> =
     \<lparr>failure = 0, success = 0, timeout = 0, timeStamp = t\<rparr>"
  by (cases b) simp

lemma latestBucket_wf:
  assumes "wf_window w"
  shows "\<exists>w1 n1. latestBucket clk w n = Inr (latest w1, w1, n1) \<and> wf_window w1 \<and>
           conseErr w1 = conseErr w \<and> bucketNums w1 = bucketNums w \<and>
           bucketTime w1 = bucketTime w \<and> expireTime w1 = expireTime w \<and>
           current_bucket w1 = writable_bucket clk w n \<and>
           n1 = (if ring_advances clk w n then Suc (Suc n) else Suc n)"
  using assms
  by (auto simp: latestBucket_def wf_window_def bucket_at_def bucket_Reset_def Let_def
      current_bucket_def ring_advances_def bucket_TimeStamp_def writable_bucket_def)

lemma window_Fail_wf:
  assumes "wf_window w"
  shows "\<exists>w' n'. window_Fail clk w n = Inr (w', n') \<and> wf_window w' \<and>
           current_bucket w' = bucket_Fail (writable_bucket clk w n) \<and>
           conseErr w' = conseErr w + 1"
proof -
  from latestBucket_wf [OF assms, of clk n] obtain w1 n1 where
    lb: "latestBucket clk w n = Inr (latest w1, w1, n1)" and wf1: "wf_window w1"
    and ce: "conseErr w1 = conseErr w" and cur: "current_bucket w1 = writable_bucket clk w n"
    by blast
  show ?thesis
    using wf1 ce cur
    by (auto simp: window_Fail_def lb Let_def wf_window_def current_bucket_def)
qed

lemma window_Timeout_wf:
  assumes "wf_window w"
  shows "\<exists>w' n'. window_Timeout clk w n = Inr (w', n') \<and> wf_window w' \<and>
           current_bucket w' = bucket_Timeout (writable_bucket clk w n) \<and>
           conseErr w' = conseErr w + 1"
proof -
  from latestBucket_wf [OF assms, of clk n] obtain w1 n1 where
    lb: "latestBucket clk w n = Inr (latest w1, w1, n1)" and wf1: "wf_window w1"
    and ce: "conseErr w1 = conseErr w" and cur: "current_bucket w1 = writable_bucket clk w n"
    by blast
  show ?thesis
    using wf1 ce cur
    by (auto simp: window_Timeout_def lb Let_def wf_window_def current_bucket_def)
qed

lemma window_Succeed_wf:
  assumes "wf_window w"
  shows "\<exists>w' n'. window_Succeed clk w n = Inr (w', n') \<and> wf_window w' \<and>
           current_bucket w' = bucket_Succeed (writable_bucket clk w n) \<and>
           conseErr w' = 0"
proof -
  from latestBucket_wf [OF assms, of clk n] obtain w1 n1 where
    lb: "latestBucket clk w n = Inr (latest w1, w1, n1)" and wf1: "wf_window w1"
    and cur: "current_bucket w1 = writable_bucket clk w n"
    by blast
  show ?thesis
    using wf1 cur
    by (auto simp: window_Succeed_def lb Let_def wf_window_def current_bucket_def)
qed

lemma window_Reset_wf:
  assumes "buckets w \<noteq> []" and "bucketNums w = int (length (buckets w))"
  shows "\<exists>w' n'. window_Reset clk w n = Inr (w', n') \<and> wf_window w'"
  using assms
  by (cases "buckets w") (auto simp: window_Reset_def wf_window_def bucket_at_def bucket_Reset_def Let_def)

lemma expire_loop_wf:
  "wf_window w \<Longrightarrow>
     \<exists>w'. expire_loop t w = Inr w' \<and> wf_window w' \<and> buckets w' = buckets w \<and>
          latest w' = latest w \<and> conseErr w' = conseErr w"
proof (induction t w rule: expire_loop.induct)
  case (1 now w)
  have at: "bucket_at (buckets w) (oldest w) = Inr (buckets w ! nat (oldest w))"
    using "1.prems" by (simp add: bucket_at_def wf_window_def)
  show ?case
  proof (cases "inWindow w > 0 \<and> wrap64 (timeStamp (buckets w ! nat (oldest w)) + expireTime w) \<le> now")
    case True
    let ?w' = "(if oldest w + 1 = bucketNums w then w\<lparr>oldest := 0\<rparr>
                   else w\<lparr>oldest := oldest w + 1\<rparr>)\<lparr>inWindow := inWindow w - 1\<rparr>"
    have wf': "wf_window ?w'"
      using "1.prems" True by (auto simp: wf_window_def)
    have "\<exists>w'. expire_loop now ?w' = Inr w' \<and> wf_window w' \<and> buckets w' = buckets ?w' \<and>
          latest w' = latest ?w' \<and> conseErr w' = conseErr ?w'"
      using "1.IH" [OF _ at _ wf'] True by (simp add: bucket_TimeStamp_def)
    moreover have "expire_loop now w = expire_loop now ?w'"
      using True at by (subst expire_loop.simps) (simp add: bucket_TimeStamp_def)
    ultimately show ?thesis by auto
  next
    case False
    then have "expire_loop now w = Inr w"
      using at by (subst expire_loop.simps) (auto simp: bucket_TimeStamp_def)
    then show ?thesis
      using "1.prems" by simp
  qed
qed


lemma counts_loop_zero: "r \<le> 0 \<Longrightarrow> counts_loop w i r (s, f, t) = Inr (s, f, t)"
  by (subst counts_loop.simps) simp

lemma expire_loop_empty: "inWindow w \<le> 0 \<Longrightarrow> expire_loop t w = Inr w"
  by (subst expire_loop.simps) simp

lemma window_Reset_shape:
  assumes "buckets w \<noteq> []"
  shows "window_Reset clk w n =
           Inr (w\<lparr>oldest := 0, latest := 0, inWindow := 1, conseErr := 0,
                  buckets := \<lparr>failure = 0, success = 0, timeout = 0, timeStamp = clk n\<rparr> #
                    tl (buckets w)\<rparr>,
                Suc n)"
  using assms
  by (cases "buckets w") (auto simp: window_Reset_def bucket_at_def bucket_Reset_def Let_def)

lemma window_Samples_after_Reset:
  assumes "buckets w \<noteq> []" and "window_Reset clk w n = Inr (w', n')"
  shows "\<exists>w'' n''. window_Samples clk w' n' = Inr (0, w'', n'')"
proof -
  define bs where "bs = tl (buckets w)"
  from window_Reset_shape [OF assms(1), of clk n] assms(2) have
    w': "w' = w\<lparr>oldest := 0, latest := 0, inWindow := 1, conseErr := 0,
                 buckets := \<lparr>failure = 0, success = 0, timeout = 0, timeStamp = clk n\<rparr> # bs\<rparr>"
    by (simp add: bs_def)
  let ?z = "\<lparr>failure = 0, success = 0, timeout = 0, timeStamp = clk n\<rparr>"
  have at: "bucket_at (buckets w') (oldest w') = Inr ?z"
    by (simp add: w' bucket_at_def)
  show ?thesis
  proof (cases "wrap64 (clk n + expireTime w') \<le> clk n'")
    case True
    let ?w2 = "(if oldest w' + 1 = bucketNums w' then w'\<lparr>oldest := 0\<rparr>
                   else w'\<lparr>oldest := oldest w' + 1\<rparr>)\<lparr>inWindow := inWindow w' - 1\<rparr>"
    have "inWindow ?w2 \<le> 0" by (simp add: w')
    then have "expire_loop (clk n') ?w2 = Inr ?w2" by (rule expire_loop_empty)
    moreover have "expire_loop (clk n') w' = expire_loop (clk n') ?w2"
      using True at by (subst expire_loop.simps) (simp add: bucket_TimeStamp_def w')
    ultimately have "expire_loop (clk n') w' = Inr ?w2" by simp
    moreover have "inWindow ?w2 = 0" by (simp add: w')
    ultimately show ?thesis
      by (simp add: window_Samples_def window_Counts_def expire_def counts_loop_zero)
  next
    case False
    then have e: "expire_loop (clk n') w' = Inr w'"
      using at by (subst expire_loop.simps) (simp add: bucket_TimeStamp_def w')
    have "counts_loop w' (oldest w') (inWindow w') (0, 0, 0) = Inr (0, 0, 0)"
      using at
      by (subst counts_loop.simps)
         (simp add: w' counts_loop_zero bucket_Successes_def bucket_Failures_def
            bucket_Timeouts_def)
    then show ?thesis
      using e by (simp add: window_Samples_def window_Counts_def expire_def)
  qed
qed

section \<open>The breaker: recording of errors\<close>

lemma replicate_update_same [simp]: "(replicate k x)[i := x] = replicate k x"
  by (cases "i < k") (auto simp: list_eq_iff_nth_eq nth_list_update)

lemma demo_breaker_built:
  "NewBreaker r m frozen_clock demo_options 0 = Inr (demo_breaker, 1)"
  by (simp add: wrap64_def NewBreaker_def NewBreaker_defaults_def demo_options_def demo_breaker_def demo_window_def
      NewWindowWithOptions_def window_Reset_def bucket_at_def bucket_Reset_def Let_def
      frozen_clock_def new_bucket_def
      DEFAULT_BUCKET_TIME_def DEFAULT_BUCKET_NUMS_def DEFAULT_COOLING_TIMEOUT_def
      DEFAULT_DETECT_TIMEOUT_def DEFAULT_HALFOPEN_SUCCESSES_def)

lemma open_breaker_reached:
  "Breaker_Fail frozen_clock demo_breaker 1 = Inr (open_breaker, 3)"
  by (simp add: wrap64_def Breaker_Fail_def Breaker_error_def demo_breaker_def demo_options_def
      demo_window_def open_breaker_def window_Fail_def latestBucket_def bucket_at_def
      bucket_TimeStamp_def new_bucket_def frozen_clock_def Let_def bucket_Fail_def
      ConsecutiveTripFunc_def window_ConsecutiveErrors_def notify_def)


lemma busy_breaker_built:
  "NewBreaker r m busy_clock (demo_options\<lparr>now := Some frozen_clock\<rparr>) 0 = Inr (demo_breaker, 1)"
  by (simp add: wrap64_def NewBreaker_def NewBreaker_defaults_def demo_options_def demo_breaker_def demo_window_def
      NewWindowWithOptions_def window_Reset_def bucket_at_def bucket_Reset_def Let_def
      busy_clock_def new_bucket_def
      DEFAULT_BUCKET_TIME_def DEFAULT_BUCKET_NUMS_def DEFAULT_COOLING_TIMEOUT_def
      DEFAULT_DETECT_TIMEOUT_def DEFAULT_HALFOPEN_SUCCESSES_def)

lemma busy_breaker_reached:
  "Breaker_run busy_clock
     [B_Succeed, B_Succeed, B_Succeed, B_Succeed, B_Succeed, B_Fail, B_Fail, B_Fail, B_Fail, B_Timeout]
     demo_breaker 1 = Inr (busy_breaker, 14)"
  by (simp add: wrap64_def Breaker_Succeed_def Breaker_Fail_def Breaker_Timeout_def Breaker_error_def
      demo_breaker_def demo_options_def demo_window_def busy_breaker_def
      window_Succeed_def window_Fail_def window_Timeout_def latestBucket_def bucket_at_def
      bucket_Reset_def bucket_TimeStamp_def new_bucket_def busy_clock_def Let_def
      bucket_Fail_def bucket_Succeed_def bucket_Timeout_def
      ConsecutiveTripFunc_def window_ConsecutiveErrors_def notify_def list_update_swap)

lemma record_outcome_wf:
  assumes "wf_window w"
  shows "\<exists>w' n'. (if isTimeout then window_Timeout clk w n else window_Fail clk w n) = Inr (w', n') \<and>
           wf_window w' \<and>
           (if isTimeout then timeout_counted clk w n w' else failure_counted clk w n w') \<and>
           conseErr w' = conseErr w + 1"
  using window_Fail_wf [OF assms, of clk n] window_Timeout_wf [OF assms, of clk n]
  by (auto simp: failure_counted_def timeout_counted_def bucket_Fail_def bucket_Timeout_def)

lemma notify_observer:
  assumes "wf_window (Container b)"
    and "\<forall>h. StateChangeHandler (options b) = Some h \<longrightarrow> observer_handler h"
  shows "\<exists>m n'. notify b s s' clk n = Inr (b\<lparr>Container := m\<rparr>, n') \<and> wf_window m \<and>
           buckets m = buckets (Container b) \<and> latest m = latest (Container b) \<and>
           conseErr m = conseErr (Container b)"
proof (cases "StateChangeHandler (options b)")
  case None
  then show ?thesis using assms(1) by (auto simp: notify_def intro!: exI [of _ "Container b"])
next
  case (Some h)
  with assms(2) have "observer_handler h" by simp
  with assms(1) obtain m' n' where
    "h s s' clk (Container b) n = Inr (m', n')" "wf_window m'"
    "buckets m' = buckets (Container b)" "latest m' = latest (Container b)"
    "conseErr m' = conseErr (Container b)"
    unfolding observer_handler_def by blast
  then show ?thesis using Some by (auto simp: notify_def intro!: exI [of _ m'])
qed

lemma Breaker_error_records:
  assumes wf: "wf_window (Container b)"
    and tr: "\<forall>tf. trip = Some tf \<longrightarrow> observer_trip tf"
    and ha: "\<forall>h. StateChangeHandler (options b) = Some h \<longrightarrow> observer_handler h"
  shows "\<exists>b' n'. Breaker_error isTimeout trip clk b n = Inr (b', n') \<and>
           wf_window (Container b') \<and>
           (if isTimeout then timeout_counted clk (Container b) n (Container b')
            else failure_counted clk (Container b) n (Container b')) \<and>
           conseErr (Container b') = conseErr (Container b) + 1 \<and>
           options b' = options b"
proof -
  let ?counted = "\<lambda>m'. if isTimeout then timeout_counted clk (Container b) n m'
                      else failure_counted clk (Container b) n m'"
  from record_outcome_wf [OF wf, of isTimeout clk n] obtain m n1 where
    rec: "(if isTimeout then window_Timeout clk (Container b) n
           else window_Fail clk (Container b) n) = Inr (m, n1)"
    and wfm: "wf_window m" and r: "?counted m"
    and ce: "conseErr m = conseErr (Container b) + 1"
    by blast
  let ?b1 = "b\<lparr>Container := m\<rparr>"
  have cur: "\<And>m'. buckets m' = buckets m \<Longrightarrow> latest m' = latest m \<Longrightarrow> ?counted m'"
    using r
    by (cases isTimeout) (simp_all add: failure_counted_def timeout_counted_def current_bucket_def)
  show ?thesis
  proof (cases "state b")
    case OPEN
    then show ?thesis
      using rec wfm r ce by (simp add: Breaker_error_def)
  next
    case HALFOPEN
    have ha1: "\<forall>h. StateChangeHandler (options ?b1) = Some h \<longrightarrow> observer_handler h"
      using ha by simp
    from notify_observer [of ?b1 HALFOPEN OPEN clk n1, OF _ ha1] wfm obtain m2 n2 where
      "notify ?b1 HALFOPEN OPEN clk n1 = Inr (?b1\<lparr>Container := m2\<rparr>, n2)" "wf_window m2"
      "buckets m2 = buckets m" "latest m2 = latest m" "conseErr m2 = conseErr m"
      by auto
    then show ?thesis
      using HALFOPEN rec ce cur [of m2] by (simp add: Breaker_error_def)
  next
    case CLOSED
    show ?thesis
    proof (cases trip)
      case None
      then show ?thesis
        using CLOSED rec wfm r ce by (simp add: Breaker_error_def)
    next
      case (Some tf)
      with tr have "observer_trip tf" by simp
      with wfm obtain tripped m2 n2 where
        t: "tf clk m n1 = Inr (tripped, m2, n2)" and wf2: "wf_window m2"
        and k2: "buckets m2 = buckets m" "latest m2 = latest m" "conseErr m2 = conseErr m"
        unfolding observer_trip_def by blast
      let ?b2 = "b\<lparr>Container := m2\<rparr>"
      have ha2: "\<forall>h. StateChangeHandler (options ?b2) = Some h \<longrightarrow> observer_handler h"
        using ha by simp
      from notify_observer [of ?b2 CLOSED OPEN clk n2, OF _ ha2] wf2 obtain m3 n3 where
        nt: "notify ?b2 CLOSED OPEN clk n2 = Inr (?b2\<lparr>Container := m3\<rparr>, n3)"
        and wf3: "wf_window m3"
        and k3: "buckets m3 = buckets m2" "latest m3 = latest m2" "conseErr m3 = conseErr m2"
        by auto
      show ?thesis
        using CLOSED Some rec t nt wf2 wf3 k2 k3 ce cur [of m2] cur [of m3]
        by (cases tripped; cases isTimeout) (simp_all add: Breaker_error_def Let_def)
    qed
  qed
qed

lemma observer_ConsecutiveTripFunc: "observer_trip (ConsecutiveTripFunc k)"
  by (simp add: observer_trip_def ConsecutiveTripFunc_def)

lemma open_error:
  assumes "state b = OPEN" and "wf_window (Container b)"
  shows "\<exists>m n'. Breaker_error isTimeout trip clk b n = Inr (b\<lparr>Container := m\<rparr>, n') \<and>
           (if isTimeout then timeout_counted clk (Container b) n m
            else failure_counted clk (Container b) n m) \<and>
           conseErr m = conseErr (Container b) + 1"
  using record_outcome_wf [OF assms(2), of isTimeout clk n] assms(1)
  by (auto simp: Breaker_error_def)

lemma wf_open_breaker: "wf_window (Container open_breaker)"
  by (simp add: open_breaker_def demo_breaker_def demo_window_def wf_window_def)

lemma wf_demo_breaker: "wf_window (Container demo_breaker)"
  by (simp add: demo_breaker_def demo_window_def wf_window_def)

lemma demo_writable:
  "writable_bucket frozen_clock (Container demo_breaker) 1 =
     \<lparr>failure = 0, success = 0, timeout = 0, timeStamp = 0\<rparr>"
  by (simp add: writable_bucket_def ring_advances_def current_bucket_def wrap64_def
      demo_breaker_def demo_window_def frozen_clock_def new_bucket_def)

lemma halfopen_breaker_reached:
  "Breaker_IsAllowed (\<lambda>n. 5001000000) open_breaker 3 = (True, halfopen_breaker, 4)"
  by (simp add: Breaker_IsAllowed_def Breaker_isAllowed_def open_breaker_def halfopen_breaker_def
      demo_breaker_def demo_options_def)

lemma wf_halfopen_breaker: "wf_window (Container halfopen_breaker)"
  by (simp add: halfopen_breaker_def open_breaker_def demo_breaker_def demo_window_def wf_window_def)

lemma halfopen_window_Reset:
  "window_Reset frozen_clock (Container halfopen_breaker) n = Inr (demo_window, Suc n)"
  by (simp add: window_Reset_def bucket_at_def bucket_Reset_def Let_def halfopen_breaker_def
      open_breaker_def demo_breaker_def demo_window_def frozen_clock_def new_bucket_def)

section \<open>Reading the window; the built-in predicates only observe\<close>

lemma counts_loop_total:
  "bucketNums w = int (length (buckets w)) \<Longrightarrow> 0 \<le> i \<Longrightarrow> i < bucketNums w \<Longrightarrow>
     \<exists>c. counts_loop w i r acc = Inr c"
proof (induction w i r acc rule: counts_loop.induct)
  case (1 w i r s f t)
  show ?case
  proof (cases "r > 0")
    case True
    have at: "bucket_at (buckets w) i = Inr (buckets w ! nat i)"
      using "1.prems" by (simp add: bucket_at_def)
    let ?i' = "if i + 1 \<ge> bucketNums w then 0 else i + 1"
    have "\<exists>c. counts_loop w ?i' (r - 1)
            (s + bucket_Successes (buckets w ! nat i), f + bucket_Failures (buckets w ! nat i),
             t + bucket_Timeouts (buckets w ! nat i)) = Inr c"
    proof -
      have "0 \<le> ?i'" "?i' < bucketNums w"
        using "1.prems" by auto
      then show ?thesis
        using "1.IH" [OF True at "1.prems"(1)] by blast
    qed
    then show ?thesis
      using True at by (subst counts_loop.simps) simp
  next
    case False
    then show ?thesis by (simp add: counts_loop_zero)
  qed
qed

lemma window_Counts_wf:
  assumes "wf_window w"
  shows "\<exists>c w'. window_Counts clk w n = Inr (c, w', Suc n) \<and> wf_window w' \<and>
           buckets w' = buckets w \<and> latest w' = latest w \<and> conseErr w' = conseErr w"
proof -
  from expire_loop_wf [OF assms, of "clk n"] obtain w' where
    e: "expire_loop (clk n) w = Inr w'" and wf': "wf_window w'"
    and k: "buckets w' = buckets w" "latest w' = latest w" "conseErr w' = conseErr w"
    by blast
  from wf' obtain c where "counts_loop w' (oldest w') (inWindow w') (0, 0, 0) = Inr c"
    using counts_loop_total [of w' "oldest w'" "inWindow w'" "(0, 0, 0)"]
    by (auto simp: wf_window_def)
  then show ?thesis
    using e wf' k by (cases c) (simp add: window_Counts_def expire_def)
qed

lemma window_reads_wf:
  assumes "wf_window w"
  shows "\<exists>x w'. window_Successes clk w n = Inr (x, w', Suc n) \<and> wf_window w' \<and>
           buckets w' = buckets w \<and> latest w' = latest w \<and> conseErr w' = conseErr w"
    and "\<exists>x w'. window_Failures clk w n = Inr (x, w', Suc n) \<and> wf_window w' \<and>
           buckets w' = buckets w \<and> latest w' = latest w \<and> conseErr w' = conseErr w"
    and "\<exists>x w'. window_Timeouts clk w n = Inr (x, w', Suc n) \<and> wf_window w' \<and>
           buckets w' = buckets w \<and> latest w' = latest w \<and> conseErr w' = conseErr w"
    and "\<exists>x w'. window_Samples clk w n = Inr (x, w', Suc n) \<and> wf_window w' \<and>
           buckets w' = buckets w \<and> latest w' = latest w \<and> conseErr w' = conseErr w"
    and "\<exists>x w'. window_ErrorRate clk w n = Inr (x, w', Suc n) \<and> wf_window w' \<and>
           buckets w' = buckets w \<and> latest w' = latest w \<and> conseErr w' = conseErr w"
  using window_Counts_wf [OF assms, of clk n]
  by (auto simp: window_Successes_def window_Failures_def window_Timeouts_def
      window_Samples_def window_ErrorRate_def)

lemma observer_ThresholdTripFunc: "observer_trip (ThresholdTripFunc k)"
  unfolding observer_trip_def
proof (intro allI impI)
  fix clk m n
  assume wf: "wf_window m"
  from window_reads_wf(2) [OF wf, of clk n] obtain f m1 where
    1: "window_Failures clk m n = Inr (f, m1, Suc n)" "wf_window m1"
       "buckets m1 = buckets m" "latest m1 = latest m" "conseErr m1 = conseErr m"
    by blast
  from window_reads_wf(3) [OF 1(2), of clk "Suc n"] obtain t m2 where
    2: "window_Timeouts clk m1 (Suc n) = Inr (t, m2, Suc (Suc n))" "wf_window m2"
       "buckets m2 = buckets m1" "latest m2 = latest m1" "conseErr m2 = conseErr m1"
    by blast
  show "\<exists>r m' n'. ThresholdTripFunc k clk m n = Inr (r, m', n') \<and> wf_window m' \<and>
           buckets m' = buckets m \<and> latest m' = latest m \<and> conseErr m' = conseErr m"
    using 1 2 by (simp add: ThresholdTripFunc_def)
qed

lemma observer_RateTripFunc: "observer_trip (RateTripFunc rate k)"
  unfolding observer_trip_def
proof (intro allI impI)
  fix clk m n
  assume wf: "wf_window m"
  from window_reads_wf(4) [OF wf, of clk n] obtain s m1 where
    1: "window_Samples clk m n = Inr (s, m1, Suc n)" "wf_window m1"
       "buckets m1 = buckets m" "latest m1 = latest m" "conseErr m1 = conseErr m"
    by blast
  from window_reads_wf(5) [OF 1(2), of clk "Suc n"] obtain r m2 where
    2: "window_ErrorRate clk m1 (Suc n) = Inr (r, m2, Suc (Suc n))" "wf_window m2"
       "buckets m2 = buckets m1" "latest m2 = latest m1" "conseErr m2 = conseErr m1"
    by blast
  show "\<exists>r m' n'. RateTripFunc rate k clk m n = Inr (r, m', n') \<and> wf_window m' \<and>
           buckets m' = buckets m \<and> latest m' = latest m \<and> conseErr m' = conseErr m"
    using 1 2 by (auto simp: RateTripFunc_def)
qed

lemma observer_GenBreaker_callback: "observer_handler GenBreaker_callback"
  unfolding observer_handler_def
proof (intro allI impI)
  fix s s' :: State and clk m n
  assume wf: "wf_window m"
  from window_reads_wf(1) [OF wf, of clk n] obtain x1 m1 where
    1: "window_Successes clk m n = Inr (x1, m1, Suc n)" "wf_window m1"
       "buckets m1 = buckets m" "latest m1 = latest m" "conseErr m1 = conseErr m"
    by blast
  from window_reads_wf(2) [OF 1(2), of clk "Suc n"] obtain x2 m2 where
    2: "window_Failures clk m1 (Suc n) = Inr (x2, m2, Suc (Suc n))" "wf_window m2"
       "buckets m2 = buckets m1" "latest m2 = latest m1" "conseErr m2 = conseErr m1"
    by blast
  from window_reads_wf(3) [OF 2(2), of clk "Suc (Suc n)"] obtain x3 m3 where
    3: "window_Timeouts clk m2 (Suc (Suc n)) = Inr (x3, m3, Suc (Suc (Suc n)))" "wf_window m3"
       "buckets m3 = buckets m2" "latest m3 = latest m2" "conseErr m3 = conseErr m2"
    by blast
  from window_reads_wf(5) [OF 3(2), of clk "Suc (Suc (Suc n))"] obtain x4 m4 where
    4: "window_ErrorRate clk m3 (Suc (Suc (Suc n))) = Inr (x4, m4, Suc (Suc (Suc (Suc n))))"
       "wf_window m4"
       "buckets m4 = buckets m3" "latest m4 = latest m3" "conseErr m4 = conseErr m3"
    by blast
  show "\<exists>m' n'. GenBreaker_callback s s' clk m n = Inr (m', n') \<and> wf_window m' \<and>
           buckets m' = buckets m \<and> latest m' = latest m \<and> conseErr m' = conseErr m"
    using 1 2 3 4 by (simp add: GenBreaker_callback_def)
qed

text \<open>
  The handler of \<^verbatim>\<open>GenBreaker\<close> on the window of the probing breaker, under the frozen
  clock: four reads, each one clock reading, and the window as it was.
\<close>

lemma halfopen_window_Counts:
  "window_Counts frozen_clock (Container halfopen_breaker) n =
     Inr ((0, 1, 0), Container halfopen_breaker, Suc n)"
proof -
  let ?w = "Container halfopen_breaker"
  have w: "?w = demo_window
          \<lparr>conseErr := 1,
           buckets := (replicate 100 new_bucket)
             [0 := \<lparr>failure = 1, success = 0, timeout = 0, timeStamp = 0\<rparr>]\<rparr>"
    by (simp add: halfopen_breaker_def open_breaker_def demo_breaker_def)
  have e: "expire_loop 0 ?w = Inr ?w"
    by (subst expire_loop.simps)
       (simp add: w demo_window_def bucket_at_def bucket_TimeStamp_def wrap64_def)
  have c: "counts_loop ?w 0 1 (0, 0, 0) = Inr (0, 1, 0)"
    by (subst counts_loop.simps)
       (simp add: w demo_window_def bucket_at_def counts_loop_zero bucket_Successes_def
          bucket_Failures_def bucket_Timeouts_def)
  have "oldest ?w = 0" "inWindow ?w = 1"
    by (simp_all add: w demo_window_def)
  then show ?thesis
    using e c by (simp add: window_Counts_def expire_def frozen_clock_def)
qed

lemma halfopen_callback:
  "GenBreaker_callback HALFOPEN CLOSED frozen_clock (Container halfopen_breaker) 4 =
     Inr (Container halfopen_breaker, 8)"
  by (simp add: GenBreaker_callback_def window_Successes_def window_Failures_def
      window_Timeouts_def window_ErrorRate_def halfopen_window_Counts)

section \<open>The breaker: successes\<close>

lemma closed_succeed:
  assumes "state b = CLOSED" and "wf_window (Container b)"
  shows "\<exists>m n'. Breaker_Succeed clk b n = Inr (b\<lparr>Container := m\<rparr>, n') \<and>
           success_counted clk (Container b) n m \<and> conseErr m = 0"
  using window_Succeed_wf [OF assms(2), of clk n] assms(1)
  by (auto simp: Breaker_Succeed_def success_counted_def bucket_Succeed_def)

lemma halfopen_below:
  assumes "state b = HALFOPEN" and "halfopenSuccess b + 1 \<noteq> HalfOpenSuccess (options b)"
  shows "Breaker_Succeed clk b n = Inr (b\<lparr>halfopenSuccess := halfopenSuccess b + 1\<rparr>, n)"
  using assms by (simp add: Breaker_Succeed_def Let_def)

lemma halfopen_threshold_nil:
  assumes "state b = HALFOPEN" and "halfopenSuccess b + 1 = HalfOpenSuccess (options b)"
    and "StateChangeHandler (options b) = None"
  shows "Breaker_Succeed clk b n =
           (case window_Reset clk (Container b) n of
              Inl e \<Rightarrow> Inl e
            | Inr (m, n2) \<Rightarrow>
                Inr (b\<lparr>halfopenSuccess := halfopenSuccess b + 1, Container := m, state := CLOSED\<rparr>, n2))"
  using assms
  by (simp add: Breaker_Succeed_def notify_def Let_def cong: sum.case_cong prod.case_cong)

lemma halfopen_threshold_handler:
  assumes "state b = HALFOPEN" and "halfopenSuccess b + 1 = HalfOpenSuccess (options b)"
    and "StateChangeHandler (options b) = Some h"
  shows "Breaker_Succeed clk b n =
           (case h HALFOPEN CLOSED clk (Container b) n of
              Inl e \<Rightarrow> Inl e
            | Inr (m1, n1) \<Rightarrow>
                (case window_Reset clk m1 n1 of
                   Inl e \<Rightarrow> Inl e
                 | Inr (m, n2) \<Rightarrow>
                     Inr (b\<lparr>halfopenSuccess := halfopenSuccess b + 1, Container := m,
                            state := CLOSED\<rparr>, n2)))"
  using assms
  by (auto simp: Breaker_Succeed_def notify_def Let_def split: sum.splits)

lemma halfopen_threshold_wf:
  assumes s: "state b = HALFOPEN" and th: "halfopenSuccess b + 1 = HalfOpenSuccess (options b)"
    and wf: "wf_window (Container b)"
    and ha: "\<forall>h. StateChangeHandler (options b) = Some h \<longrightarrow> observer_handler h"
  shows "\<exists>b' n'. Breaker_Succeed clk b n = Inr (b', n') \<and> state b' = CLOSED \<and>
           wf_window (Container b') \<and>
           oldest (Container b') = 0 \<and> latest (Container b') = 0 \<and>
           inWindow (Container b') = 1 \<and> conseErr (Container b') = 0 \<and>
           current_bucket (Container b') =
             \<lparr>failure = 0, success = 0, timeout = 0, timeStamp = clk (n' - 1)\<rparr>"
proof -
  let ?b1 = "b\<lparr>halfopenSuccess := halfopenSuccess b + 1\<rparr>"
  have ha1: "\<forall>h. StateChangeHandler (options ?b1) = Some h \<longrightarrow> observer_handler h"
    using ha by simp
  from notify_observer [of ?b1 HALFOPEN CLOSED clk n, OF _ ha1] wf obtain m1 n1 where
    nt: "notify ?b1 HALFOPEN CLOSED clk n = Inr (?b1\<lparr>Container := m1\<rparr>, n1)"
    and wf1: "wf_window m1"
    by auto
  from wf1 have ne: "buckets m1 \<noteq> []"
    by (auto simp: wf_window_def)
  note rs = window_Reset_shape [OF ne, of clk n1]
  have len: "bucketNums m1 = int (length (buckets m1))" "Suc 0 \<le> length (buckets m1)"
    using wf1 ne by (cases "buckets m1"; simp add: wf_window_def)+
  show ?thesis
    using s th nt rs len ne
    by (simp add: Breaker_Succeed_def Let_def current_bucket_def wf_window_def)
qed

section \<open>Construction\<close>

lemma NewWindowWithOptions_ok:
  assumes "100 \<le> k"
  shows "\<exists>w. NewWindowWithOptions clk t k n = Inr (w, Suc n) \<and> wf_window w \<and>
           bucketNums w = k \<and> bucketTime w = t \<and> expireTime w = wrap64 (t * k) \<and>
           length (buckets w) = nat k \<and> inWindow w = 1 \<and> oldest w = 0 \<and> latest w = 0 \<and>
           conseErr w = 0 \<and>
           buckets w = \<lparr>failure = 0, success = 0, timeout = 0, timeStamp = clk n\<rparr> #
             replicate (nat k - 1) new_bucket"
proof -
  have "replicate (nat k) new_bucket \<noteq> []"
    using assms by simp
  moreover have "tl (replicate (nat k) new_bucket) = replicate (nat k - 1) new_bucket"
    by (cases "nat k") simp_all
  ultimately show ?thesis
    using assms
    by (simp add: NewWindowWithOptions_def window_Reset_shape wf_window_def)
qed

text \<open>
  The window length is an \<^verbatim>\<open>int64\<close> product: with a bucket time of \<open>2 ^ 62\<close> ns and 100
  buckets it wraps to 0.
\<close>

lemma window_length_wraps:
  "\<exists>w. NewWindowWithOptions clk (2 ^ 62) 100 n = Inr (w, Suc n) \<and> expireTime w = 0"
  using NewWindowWithOptions_ok [of 100 clk "2 ^ 62" n] by (auto simp: wrap64_def)




lemma demo_window_built:
  "NewWindowWithOptions frozen_clock 100000000 100 0 = Inr (demo_window, 1)"
  by (simp add: wrap64_def demo_window_def NewWindowWithOptions_def window_Reset_def bucket_at_def
      bucket_Reset_def Let_def frozen_clock_def new_bucket_def)

section \<open>The slots of the window\<close>

lemma ring_slots_Cons:
  assumes "0 \<le> i" "i < N" "0 < r" "r \<le> N"
  shows "ring_slots bs N i r =
           bs ! nat i # ring_slots bs N (if i + 1 \<ge> N then 0 else i + 1) (r - 1)"
proof (rule nth_equalityI)
  show "length (ring_slots bs N i r) =
          length (bs ! nat i # ring_slots bs N (if i + 1 \<ge> N then 0 else i + 1) (r - 1))"
    using assms by (simp add: ring_slots_def nat_diff_distrib)
next
  fix k
  assume "k < length (ring_slots bs N i r)"
  then have k: "k < nat r" by (simp add: ring_slots_def)
  show "ring_slots bs N i r ! k =
          (bs ! nat i # ring_slots bs N (if i + 1 \<ge> N then 0 else i + 1) (r - 1)) ! k"
  proof (cases k)
    case 0
    then show ?thesis using assms k by (simp add: ring_slots_def ring_index_def)
  next
    case (Suc j)
    then have j: "j < nat (r - 1)" using k by simp
    have "ring_index N i (int (Suc j)) = ring_index N (if i + 1 \<ge> N then 0 else i + 1) (int j)"
      using assms j by (auto simp: ring_index_def)
    then show ?thesis
      using Suc k j by (simp add: ring_slots_def)
  qed
qed

lemma ring_slots_Nil: "r \<le> 0 \<Longrightarrow> ring_slots bs N i r = []"
  by (simp add: ring_slots_def)



lemma expire_loop_slots:
  "wf_window w \<Longrightarrow>
     \<exists>w'. expire_loop t w = Inr w' \<and> wf_window w' \<and> buckets w' = buckets w \<and>
          latest w' = latest w \<and> conseErr w' = conseErr w \<and> bucketNums w' = bucketNums w \<and>
          bucketTime w' = bucketTime w \<and> expireTime w' = expireTime w \<and>
          window_slots w' = dropWhile (\<lambda>b. wrap64 (timeStamp b + expireTime w) \<le> t) (window_slots w) \<and>
          ring_index (bucketNums w') (oldest w') (inWindow w') =
            ring_index (bucketNums w) (oldest w) (inWindow w)"
proof (induction t w rule: expire_loop.induct)
  case (1 now w)
  have at: "bucket_at (buckets w) (oldest w) = Inr (buckets w ! nat (oldest w))"
    using "1.prems" by (simp add: bucket_at_def wf_window_def)
  show ?case
  proof (cases "inWindow w > 0")
    case False
    then have "expire_loop now w = Inr w"
      by (simp add: expire_loop_empty)
    moreover have "window_slots w = []"
      using False by (simp add: window_slots_def ring_slots_Nil)
    ultimately show ?thesis
      using "1.prems" by simp
  next
    case True
    let ?w' = "(if oldest w + 1 = bucketNums w then w\<lparr>oldest := 0\<rparr>
                   else w\<lparr>oldest := oldest w + 1\<rparr>)\<lparr>inWindow := inWindow w - 1\<rparr>"
    have sl: "window_slots w = buckets w ! nat (oldest w) # window_slots ?w'"
      using ring_slots_Cons [of "oldest w" "bucketNums w" "inWindow w" "buckets w"] "1.prems" True
      by (auto simp: window_slots_def wf_window_def)
    show ?thesis
    proof (cases "wrap64 (timeStamp (buckets w ! nat (oldest w)) + expireTime w) \<le> now")
      case exp: True
      have wf': "wf_window ?w'"
        using "1.prems" True by (auto simp: wf_window_def)
      have ri: "ring_index (bucketNums ?w') (oldest ?w') (inWindow ?w') =
                  ring_index (bucketNums w) (oldest w) (inWindow w)"
        using "1.prems" True by (auto simp: wf_window_def ring_index_def)
      have ih: "\<exists>w'. expire_loop now ?w' = Inr w' \<and> wf_window w' \<and> buckets w' = buckets ?w' \<and>
          latest w' = latest ?w' \<and> conseErr w' = conseErr ?w' \<and> bucketNums w' = bucketNums ?w' \<and>
          bucketTime w' = bucketTime ?w' \<and> expireTime w' = expireTime ?w' \<and>
          window_slots w' = dropWhile (\<lambda>b. wrap64 (timeStamp b + expireTime ?w') \<le> now) (window_slots ?w') \<and>
          ring_index (bucketNums w') (oldest w') (inWindow w') =
            ring_index (bucketNums ?w') (oldest ?w') (inWindow ?w')"
        using "1.IH" [OF True at _ wf'] exp by (simp add: bucket_TimeStamp_def)
      have step: "expire_loop now w = expire_loop now ?w'"
        using True exp at by (subst expire_loop.simps) (simp add: bucket_TimeStamp_def)
      have e': "expireTime ?w' = expireTime w" "buckets ?w' = buckets w" "latest ?w' = latest w"
        "conseErr ?w' = conseErr w" "bucketNums ?w' = bucketNums w" "bucketTime ?w' = bucketTime w"
        by simp_all
      from ih obtain w'' where
        w'': "expire_loop now ?w' = Inr w''" "wf_window w''" "buckets w'' = buckets ?w'"
          "latest w'' = latest ?w'" "conseErr w'' = conseErr ?w'" "bucketNums w'' = bucketNums ?w'"
          "bucketTime w'' = bucketTime ?w'" "expireTime w'' = expireTime ?w'"
          "window_slots w'' = dropWhile (\<lambda>b. wrap64 (timeStamp b + expireTime ?w') \<le> now) (window_slots ?w')"
          "ring_index (bucketNums w'') (oldest w'') (inWindow w'') =
            ring_index (bucketNums ?w') (oldest ?w') (inWindow ?w')"
        by blast
      have "window_slots w'' = dropWhile (\<lambda>b. wrap64 (timeStamp b + expireTime w) \<le> now) (window_slots w)"
        using w''(9) exp by (simp only: e' sl dropWhile.simps if_True)
      then show ?thesis
        using step w'' e' ri by (intro exI [of _ w'']) (simp only: simp_thms)
    next
      case live: False
      then have "expire_loop now w = Inr w"
        using at by (subst expire_loop.simps) (auto simp: bucket_TimeStamp_def)
      moreover have "dropWhile (\<lambda>b. wrap64 (timeStamp b + expireTime w) \<le> now) (window_slots w) =
          window_slots w"
      proof -
        have "dropWhile (\<lambda>b. wrap64 (timeStamp b + expireTime w) \<le> now)
                (buckets w ! nat (oldest w) # window_slots ?w') =
              buckets w ! nat (oldest w) # window_slots ?w'"
          using live by (simp only: dropWhile.simps if_False)
        then show ?thesis by (simp only: sl [symmetric])
      qed
      ultimately show ?thesis
        using "1.prems" by simp
    qed
  qed
qed





section \<open>The invariant of the ring\<close>









section \<open>Runs of window operations\<close>

lemma window_apply_wf:
  assumes "wf_window w"
  shows "\<exists>w' n'. window_apply clk x w n = Inr (w', n') \<and> wf_window w' \<and>
           bucketNums w' = bucketNums w"
proof -
  from latestBucket_wf [OF assms, of clk n] obtain w1 n1 where
    lb: "latestBucket clk w n = Inr (latest w1, w1, n1)" "wf_window w1"
      "bucketNums w1 = bucketNums w"
    by blast
  from window_Counts_wf [OF assms, of clk n] expire_loop_slots [OF assms, of "clk n"]
  have cnt: "\<exists>c w'. window_Counts clk w n = Inr (c, w', Suc n) \<and> wf_window w' \<and>
      bucketNums w' = bucketNums w"
    by (auto simp: window_Counts_def expire_def split: sum.splits)
  have ne: "buckets w \<noteq> []"
    using assms by (auto simp: wf_window_def)
  have len1: "Suc 0 \<le> length (buckets w)"
    using ne by (cases "buckets w") auto
  have rs: "\<exists>w' n'. window_Reset clk w n = Inr (w', n') \<and> wf_window w' \<and>
      bucketNums w' = bucketNums w"
    using assms ne len1 by (simp add: window_Reset_shape wf_window_def)
  show ?thesis
  proof (cases x)
    case Op_Succeed
    then show ?thesis using lb by (auto simp: window_Succeed_def Let_def wf_window_def)
  next
    case Op_Fail
    then show ?thesis using lb by (auto simp: window_Fail_def Let_def wf_window_def)
  next
    case Op_Timeout
    then show ?thesis using lb by (auto simp: window_Timeout_def Let_def wf_window_def)
  next
    case Op_Counts
    then show ?thesis using cnt by auto
  next
    case Op_Reset
    then show ?thesis using rs by simp
  qed
qed

lemma window_run_wf:
  "wf_window w \<Longrightarrow>
     \<exists>w' n'. window_run clk xs w n = Inr (w', n') \<and> wf_window w' \<and> bucketNums w' = bucketNums w"
proof (induction xs arbitrary: w n)
  case Nil
  then show ?case by simp
next
  case (Cons x xs)
  from window_apply_wf [OF Cons.prems, of clk x n] obtain w1 n1 where
    1: "window_apply clk x w n = Inr (w1, n1)" "wf_window w1" "bucketNums w1 = bucketNums w"
    by blast
  from Cons.IH [OF 1(2), of n1] 1 show ?case by auto
qed







section \<open>The claims\<close>

subsection \<open>C1: outcome reports while OPEN\<close>

text \<open>
  As stated, C1 says that a report made while the breaker is OPEN changes neither the
  state nor the counters of the container. \<^verbatim>\<open>Breaker.error\<close> calls \<^verbatim>\<open>Container.Fail\<close> or
  \<^verbatim>\<open>Container.Timeout\<close> before it looks at the state, so a failure reported to the open
  breaker built above moves the failure counter of the current bucket from 1 to 2 and the
  streak from 1 to 2.
\<close>


theorem open_fail_counterexample:
  "state open_breaker = OPEN \<and>
   failure (current_bucket (Container open_breaker)) = 1 \<and>
   (case Breaker_Fail frozen_clock open_breaker 3 of
      Inl e \<Rightarrow> False
    | Inr (b', n') \<Rightarrow> state b' = OPEN \<and> failure (current_bucket (Container b')) = 2 \<and>
        conseErr (Container b') = 2 \<and> conseErr (Container open_breaker) = 1)"
  by (simp add: Breaker_Fail_def Breaker_error_def open_breaker_def demo_breaker_def
      demo_window_def window_Fail_def latestBucket_def bucket_at_def bucket_TimeStamp_def
      frozen_clock_def Let_def bucket_Fail_def current_bucket_def wrap64_def)

text \<open>
  Claim C1, amended. While the breaker is OPEN and its window is well formed, every
  report returns and leaves the state, the timers and the probe counter as they were.
  \<^verbatim>\<open>Succeed\<close> changes nothing at all. \<^verbatim>\<open>Fail\<close>, \<^verbatim>\<open>Timeout\<close>, \<^verbatim>\<open>FailWithTrip\<close> and
  \<^verbatim>\<open>TimeoutWithTrip\<close> change the container only, and there the report is recorded: in
  the bucket at \<open>latest\<close> the failure (timeout) counter is one more than in the bucket the
  write found, the other two counters and the stamp are those of that bucket, and the
  streak of consecutive errors is one longer. The trip predicate is not consulted.
\<close>

theorem open_reports:
  assumes "state b = OPEN" and "wf_window (Container b)"
  shows "Breaker_Succeed clk b n = Inr (b, n) \<and>
         (\<exists>m n'. Breaker_Fail clk b n = Inr (b\<lparr>Container := m\<rparr>, n') \<and>
            failure_counted clk (Container b) n m \<and>
            conseErr m = conseErr (Container b) + 1) \<and>
         (\<exists>m n'. Breaker_Timeout clk b n = Inr (b\<lparr>Container := m\<rparr>, n') \<and>
            timeout_counted clk (Container b) n m \<and>
            conseErr m = conseErr (Container b) + 1) \<and>
         (\<exists>m n'. Breaker_FailWithTrip trip clk b n = Inr (b\<lparr>Container := m\<rparr>, n') \<and>
            failure_counted clk (Container b) n m \<and>
            conseErr m = conseErr (Container b) + 1) \<and>
         (\<exists>m n'. Breaker_TimeoutWithTrip trip clk b n = Inr (b\<lparr>Container := m\<rparr>, n') \<and>
            timeout_counted clk (Container b) n m \<and>
            conseErr m = conseErr (Container b) + 1)"
proof -
  have "Breaker_Succeed clk b n = Inr (b, n)"
    using assms(1) by (simp add: Breaker_Succeed_def)
  moreover note open_error [OF assms, of False "ShouldTrip (options b)" clk n]
    open_error [OF assms, of True "ShouldTrip (options b)" clk n]
    open_error [OF assms, of False trip clk n]
    open_error [OF assms, of True trip clk n]
  ultimately show ?thesis
    by (simp add: Breaker_Fail_def Breaker_Timeout_def Breaker_FailWithTrip_def
        Breaker_TimeoutWithTrip_def)
qed

theorem open_reports_witness:
  "state open_breaker = OPEN \<and> wf_window (Container open_breaker) \<and>
   failure (writable_bucket frozen_clock (Container open_breaker) 3) = 1 \<and>
   Breaker_Succeed frozen_clock open_breaker 3 = Inr (open_breaker, 3) \<and>
   (\<exists>m n'. Breaker_Fail frozen_clock open_breaker 3 = Inr (open_breaker\<lparr>Container := m\<rparr>, n') \<and>
      failure (current_bucket m) = 2 \<and> success (current_bucket m) = 0 \<and>
      timeout (current_bucket m) = 0 \<and> conseErr m = 2)"
proof -
  have s: "state open_breaker = OPEN"
    by (simp add: open_breaker_def)
  have w: "writable_bucket frozen_clock (Container open_breaker) 3 =
             \<lparr>failure = 1, success = 0, timeout = 0, timeStamp = 0\<rparr>"
    "conseErr (Container open_breaker) = 1"
    by (simp_all add: writable_bucket_def ring_advances_def current_bucket_def wrap64_def
        open_breaker_def demo_breaker_def demo_window_def frozen_clock_def)
  show ?thesis
    using open_reports [OF s wf_open_breaker, of frozen_clock 3 None] s wf_open_breaker w
    by (simp add: failure_counted_def) blast
qed

subsection \<open>C2: which reports reach the container\<close>

text \<open>
  As stated, C2 says that \<^verbatim>\<open>Succeed\<close> too records into the container in every state.
  \<^verbatim>\<open>Breaker.Succeed\<close> calls \<^verbatim>\<open>Container.Succeed\<close> in its CLOSED branch only: on the open
  breaker built above the call returns the breaker as it was, the success counter of the
  current bucket still at 0.
\<close>

theorem open_succeed_counterexample:
  "state open_breaker = OPEN \<and>
   success (current_bucket (Container open_breaker)) = 0 \<and>
   (case Breaker_Succeed frozen_clock open_breaker 3 of
      Inl e \<Rightarrow> False
    | Inr (b', n') \<Rightarrow> Container b' = Container open_breaker \<and>
        success (current_bucket (Container b')) = 0)"
  by (simp add: Breaker_Succeed_def open_breaker_def demo_breaker_def demo_window_def
      current_bucket_def)

text \<open>
  Claim C2, amended. On a breaker whose window is well formed and whose trip predicates
  and handler only observe the container, every call of \<^verbatim>\<open>Fail\<close>, \<^verbatim>\<open>Timeout\<close>,
  \<^verbatim>\<open>FailWithTrip\<close> and \<^verbatim>\<open>TimeoutWithTrip\<close> returns, in every state, with the outcome
  recorded: in the bucket at \<open>latest\<close> the failure (timeout) counter is one more than in the
  bucket the write found, and the other two counters and the stamp are those of that
  bucket. \<^verbatim>\<open>Succeed\<close> records a success when the breaker is CLOSED
  and only then: while OPEN it changes nothing; while HALFOPEN below the threshold it
  only counts the probe in \<open>halfopenSuccess\<close>; on reaching the threshold the container is
  reset, so the current bucket holds no success.
\<close>

theorem error_reports_recorded:
  assumes "wf_window (Container b)"
    and "\<forall>tf. ShouldTrip (options b) = Some tf \<or> trip = Some tf \<longrightarrow> observer_trip tf"
    and "\<forall>h. StateChangeHandler (options b) = Some h \<longrightarrow> observer_handler h"
  shows "(\<exists>b' n'. Breaker_Fail clk b n = Inr (b', n') \<and>
            failure_counted clk (Container b) n (Container b')) \<and>
         (\<exists>b' n'. Breaker_Timeout clk b n = Inr (b', n') \<and>
            timeout_counted clk (Container b) n (Container b')) \<and>
         (\<exists>b' n'. Breaker_FailWithTrip trip clk b n = Inr (b', n') \<and>
            failure_counted clk (Container b) n (Container b')) \<and>
         (\<exists>b' n'. Breaker_TimeoutWithTrip trip clk b n = Inr (b', n') \<and>
            timeout_counted clk (Container b) n (Container b')) \<and>
         (state b = CLOSED \<longrightarrow>
            (\<exists>b' n'. Breaker_Succeed clk b n = Inr (b', n') \<and>
               success_counted clk (Container b) n (Container b'))) \<and>
         (state b = OPEN \<longrightarrow> Breaker_Succeed clk b n = Inr (b, n)) \<and>
         (state b = HALFOPEN \<and> halfopenSuccess b + 1 \<noteq> HalfOpenSuccess (options b) \<longrightarrow>
            Breaker_Succeed clk b n = Inr (b\<lparr>halfopenSuccess := halfopenSuccess b + 1\<rparr>, n)) \<and>
         (state b = HALFOPEN \<and> halfopenSuccess b + 1 = HalfOpenSuccess (options b) \<longrightarrow>
            (\<exists>b' n'. Breaker_Succeed clk b n = Inr (b', n') \<and>
               success (current_bucket (Container b')) = 0))"
proof -
  have t1: "\<forall>tf. ShouldTrip (options b) = Some tf \<longrightarrow> observer_trip tf"
    and t2: "\<forall>tf. trip = Some tf \<longrightarrow> observer_trip tf"
    using assms(2) by auto
  have e: "\<And>isTimeout tr. \<forall>tf. tr = Some tf \<longrightarrow> observer_trip tf \<Longrightarrow>
     \<exists>b' n'. Breaker_error isTimeout tr clk b n = Inr (b', n') \<and>
       (if isTimeout then timeout_counted clk (Container b) n (Container b')
        else failure_counted clk (Container b) n (Container b'))"
    using Breaker_error_records [OF assms(1) _ assms(3)] by blast
  have 1: "\<exists>b' n'. Breaker_Fail clk b n = Inr (b', n') \<and>
            failure_counted clk (Container b) n (Container b')"
    using e [OF t1, of False] by (simp add: Breaker_Fail_def)
  have 2: "\<exists>b' n'. Breaker_Timeout clk b n = Inr (b', n') \<and>
            timeout_counted clk (Container b) n (Container b')"
    using e [OF t1, of True] by (simp add: Breaker_Timeout_def)
  have 3: "\<exists>b' n'. Breaker_FailWithTrip trip clk b n = Inr (b', n') \<and>
            failure_counted clk (Container b) n (Container b')"
    using e [OF t2, of False] by (simp add: Breaker_FailWithTrip_def)
  have 4: "\<exists>b' n'. Breaker_TimeoutWithTrip trip clk b n = Inr (b', n') \<and>
            timeout_counted clk (Container b) n (Container b')"
    using e [OF t2, of True] by (simp add: Breaker_TimeoutWithTrip_def)
  have 5: "state b = CLOSED \<longrightarrow>
            (\<exists>b' n'. Breaker_Succeed clk b n = Inr (b', n') \<and>
               success_counted clk (Container b) n (Container b'))"
    using closed_succeed [OF _ assms(1), of clk n] by auto
  have 6: "state b = OPEN \<longrightarrow> Breaker_Succeed clk b n = Inr (b, n)"
    by (simp add: Breaker_Succeed_def)
  have 7: "state b = HALFOPEN \<and> halfopenSuccess b + 1 \<noteq> HalfOpenSuccess (options b) \<longrightarrow>
            Breaker_Succeed clk b n = Inr (b\<lparr>halfopenSuccess := halfopenSuccess b + 1\<rparr>, n)"
    using halfopen_below [of b clk n] by simp
  have 8: "state b = HALFOPEN \<and> halfopenSuccess b + 1 = HalfOpenSuccess (options b) \<longrightarrow>
            (\<exists>b' n'. Breaker_Succeed clk b n = Inr (b', n') \<and>
               success (current_bucket (Container b')) = 0)"
  proof
    assume a: "state b = HALFOPEN \<and> halfopenSuccess b + 1 = HalfOpenSuccess (options b)"
    then have s: "state b = HALFOPEN" by simp
    have p: "halfopenSuccess b + 1 = HalfOpenSuccess (options b) \<and> wf_window (Container b) \<and>
          (\<forall>h. StateChangeHandler (options b) = Some h \<longrightarrow> observer_handler h)"
      using a assms by simp
    from halfopen_threshold_wf [OF s, of clk n] p
    show "\<exists>b' n'. Breaker_Succeed clk b n = Inr (b', n') \<and>
               success (current_bucket (Container b')) = 0"
      by auto
  qed
  from 1 2 3 4 5 6 7 8 show ?thesis by blast
qed

theorem error_reports_recorded_witness:
  "wf_window (Container demo_breaker) \<and>
   writable_bucket frozen_clock (Container demo_breaker) 1 =
     \<lparr>failure = 0, success = 0, timeout = 0, timeStamp = 0\<rparr> \<and>
   (\<exists>b' n'. Breaker_Fail frozen_clock demo_breaker 1 = Inr (b', n') \<and>
      failure (current_bucket (Container b')) = 1 \<and> timeout (current_bucket (Container b')) = 0) \<and>
   (\<exists>b' n'. Breaker_Timeout frozen_clock demo_breaker 1 = Inr (b', n') \<and>
      timeout (current_bucket (Container b')) = 1 \<and> failure (current_bucket (Container b')) = 0) \<and>
   (\<exists>b' n'. Breaker_FailWithTrip (Some (ThresholdTripFunc 3)) frozen_clock demo_breaker 1 =
        Inr (b', n') \<and>
      failure (current_bucket (Container b')) = 1 \<and> timeout (current_bucket (Container b')) = 0) \<and>
   (\<exists>b' n'. Breaker_TimeoutWithTrip (Some (ThresholdTripFunc 3)) frozen_clock demo_breaker 1 =
        Inr (b', n') \<and>
      timeout (current_bucket (Container b')) = 1 \<and> failure (current_bucket (Container b')) = 0) \<and>
   (\<exists>b' n'. Breaker_Succeed frozen_clock demo_breaker 1 = Inr (b', n') \<and>
      success (current_bucket (Container b')) = 1 \<and> failure (current_bucket (Container b')) = 0)"
proof -
  have t: "\<forall>tf. ShouldTrip (options demo_breaker) = Some tf \<or>
             Some (ThresholdTripFunc 3) = Some tf \<longrightarrow> observer_trip tf"
    using observer_ConsecutiveTripFunc observer_ThresholdTripFunc
    by (auto simp: demo_breaker_def demo_options_def)
  have h: "\<forall>h. StateChangeHandler (options demo_breaker) = Some h \<longrightarrow> observer_handler h"
    by (simp add: demo_breaker_def demo_options_def)
  have s: "state demo_breaker = CLOSED"
    by (simp add: demo_breaker_def)
  show ?thesis
    using error_reports_recorded [OF wf_demo_breaker t h, of frozen_clock 1] wf_demo_breaker s
      demo_writable
    by (simp add: failure_counted_def timeout_counted_def success_counted_def) blast
qed

subsection \<open>C4: admission while OPEN\<close>

text \<open>
  Claim C4. When \<^verbatim>\<open>IsAllowed\<close> is called on an OPEN breaker and the clock reads \<open>clk n\<close>:
  before \<open>openTime + CoolingTimeout\<close> the call returns false and the breaker is unchanged;
  from that instant on it returns true and the breaker is HALFOPEN with
  \<open>halfopenSuccess = 0\<close> and \<open>lastRetryTime\<close> the reading. The witness is the first
  scenario of the specification: tripped at 0 with the default cooling time of 5 s, the
  breaker denies at 1 s and admits at 5001 ms.
\<close>

theorem isAllowed_open:
  assumes "state b = OPEN"
  shows "(clk n < openTime b + CoolingTimeout (options b) \<longrightarrow>
            Breaker_IsAllowed clk b n = (False, b, Suc n)) \<and>
         (openTime b + CoolingTimeout (options b) \<le> clk n \<longrightarrow>
            Breaker_IsAllowed clk b n =
              (True, b\<lparr>state := HALFOPEN, halfopenSuccess := 0, lastRetryTime := clk n\<rparr>, Suc n))"
  using assms by (simp add: Breaker_IsAllowed_def Breaker_isAllowed_def Let_def)

theorem isAllowed_open_witness:
  "state open_breaker = OPEN \<and> openTime open_breaker = 0 \<and>
   CoolingTimeout (options open_breaker) = 5000000000 \<and>
   Breaker_IsAllowed (\<lambda>n. 1000000000) open_breaker 3 = (False, open_breaker, 4) \<and>
   Breaker_IsAllowed (\<lambda>n. 5001000000) open_breaker 3 =
     (True, open_breaker\<lparr>state := HALFOPEN, halfopenSuccess := 0, lastRetryTime := 5001000000\<rparr>, 4)"
proof -
  have s: "state open_breaker = OPEN"
    by (simp add: open_breaker_def)
  have t: "openTime open_breaker = 0" "CoolingTimeout (options open_breaker) = 5000000000"
    by (simp_all add: open_breaker_def demo_breaker_def demo_options_def)
  show ?thesis
    using isAllowed_open [OF s, of "\<lambda>n. 1000000000" 3]
      isAllowed_open [OF s, of "\<lambda>n. 5001000000" 3] s t
    by simp
qed

subsection \<open>C5: a success while HALFOPEN\<close>

text \<open>
  Claim C5. \<^verbatim>\<open>Succeed\<close> on a HALFOPEN breaker. When \<open>halfopenSuccess + 1\<close> is below the
  threshold \<open>HalfOpenSuccess\<close> the breaker stays HALFOPEN and only \<open>halfopenSuccess\<close> grows
  by one. When it equals the threshold: with no handler the container is reset and the
  state is CLOSED; with a handler \<open>h\<close>, first \<open>h\<close> is called with HALFOPEN, CLOSED and the
  container at the current clock reading, then the container \<open>h\<close> leaves is reset at the
  reading \<open>h\<close> leaves, and the state is CLOSED (a panic of \<open>h\<close> or of the reset is the
  result of the call). The last part spells the outcome out for a well-formed window and
  an observing handler: the call returns, the state is CLOSED and the window is the
  freshly reset one. In the witness the handler is the one \<^verbatim>\<open>GenBreaker\<close> installs, which
  reads the clock four times before the reset reads it once.
\<close>

theorem halfopen_succeed:
  assumes "state b = HALFOPEN"
  shows "(halfopenSuccess b + 1 < HalfOpenSuccess (options b) \<longrightarrow>
            Breaker_Succeed clk b n = Inr (b\<lparr>halfopenSuccess := halfopenSuccess b + 1\<rparr>, n)) \<and>
         (halfopenSuccess b + 1 = HalfOpenSuccess (options b) \<and>
          StateChangeHandler (options b) = None \<longrightarrow>
            Breaker_Succeed clk b n =
              (case window_Reset clk (Container b) n of
                 Inl e \<Rightarrow> Inl e
               | Inr (m, n2) \<Rightarrow>
                   Inr (b\<lparr>halfopenSuccess := halfopenSuccess b + 1, Container := m,
                          state := CLOSED\<rparr>, n2))) \<and>
         (halfopenSuccess b + 1 = HalfOpenSuccess (options b) \<and>
          StateChangeHandler (options b) = Some h \<longrightarrow>
            Breaker_Succeed clk b n =
              (case h HALFOPEN CLOSED clk (Container b) n of
                 Inl e \<Rightarrow> Inl e
               | Inr (m1, n1) \<Rightarrow>
                   (case window_Reset clk m1 n1 of
                      Inl e \<Rightarrow> Inl e
                    | Inr (m, n2) \<Rightarrow>
                        Inr (b\<lparr>halfopenSuccess := halfopenSuccess b + 1, Container := m,
                               state := CLOSED\<rparr>, n2)))) \<and>
         (halfopenSuccess b + 1 = HalfOpenSuccess (options b) \<and> wf_window (Container b) \<and>
          (\<forall>h. StateChangeHandler (options b) = Some h \<longrightarrow> observer_handler h) \<longrightarrow>
            (\<exists>b' n'. Breaker_Succeed clk b n = Inr (b', n') \<and> state b' = CLOSED \<and>
               wf_window (Container b') \<and>
               oldest (Container b') = 0 \<and> latest (Container b') = 0 \<and>
               inWindow (Container b') = 1 \<and> conseErr (Container b') = 0 \<and>
               current_bucket (Container b') =
                 \<lparr>failure = 0, success = 0, timeout = 0, timeStamp = clk (n' - 1)\<rparr>))"
proof -
  have 1: "halfopenSuccess b + 1 < HalfOpenSuccess (options b) \<longrightarrow>
            Breaker_Succeed clk b n = Inr (b\<lparr>halfopenSuccess := halfopenSuccess b + 1\<rparr>, n)"
    using halfopen_below [OF assms, of clk n] by simp
  have 2: "halfopenSuccess b + 1 = HalfOpenSuccess (options b) \<and>
          StateChangeHandler (options b) = None \<longrightarrow>
            Breaker_Succeed clk b n =
              (case window_Reset clk (Container b) n of
                 Inl e \<Rightarrow> Inl e
               | Inr (m, n2) \<Rightarrow>
                   Inr (b\<lparr>halfopenSuccess := halfopenSuccess b + 1, Container := m,
                          state := CLOSED\<rparr>, n2))"
    using halfopen_threshold_nil [OF assms, of clk n] by blast
  have 3: "halfopenSuccess b + 1 = HalfOpenSuccess (options b) \<and>
          StateChangeHandler (options b) = Some h \<longrightarrow>
            Breaker_Succeed clk b n =
              (case h HALFOPEN CLOSED clk (Container b) n of
                 Inl e \<Rightarrow> Inl e
               | Inr (m1, n1) \<Rightarrow>
                   (case window_Reset clk m1 n1 of
                      Inl e \<Rightarrow> Inl e
                    | Inr (m, n2) \<Rightarrow>
                        Inr (b\<lparr>halfopenSuccess := halfopenSuccess b + 1, Container := m,
                               state := CLOSED\<rparr>, n2)))"
    using halfopen_threshold_handler [OF assms, of h clk n] by blast
  have 4: "halfopenSuccess b + 1 = HalfOpenSuccess (options b) \<and> wf_window (Container b) \<and>
          (\<forall>h. StateChangeHandler (options b) = Some h \<longrightarrow> observer_handler h) \<longrightarrow>
            (\<exists>b' n'. Breaker_Succeed clk b n = Inr (b', n') \<and> state b' = CLOSED \<and>
               wf_window (Container b') \<and>
               oldest (Container b') = 0 \<and> latest (Container b') = 0 \<and>
               inWindow (Container b') = 1 \<and> conseErr (Container b') = 0 \<and>
               current_bucket (Container b') =
                 \<lparr>failure = 0, success = 0, timeout = 0, timeStamp = clk (n' - 1)\<rparr>)"
    using halfopen_threshold_wf [OF assms, of clk n] by blast
  from 1 2 3 4 show ?thesis by (intro conjI)
qed

theorem halfopen_succeed_witness:
  "state halfopen_breaker = HALFOPEN \<and>
   StateChangeHandler (options halfopen_breaker) = None \<and>
   halfopenSuccess halfopen_breaker = 0 \<and> HalfOpenSuccess (options halfopen_breaker) = 2 \<and>
   Breaker_Succeed frozen_clock halfopen_breaker 4 =
     Inr (halfopen_breaker\<lparr>halfopenSuccess := 1\<rparr>, 4) \<and>
   Breaker_Succeed frozen_clock (halfopen_breaker\<lparr>halfopenSuccess := 1\<rparr>) 4 =
     Inr (halfopen_breaker\<lparr>halfopenSuccess := 2, Container := demo_window, state := CLOSED\<rparr>, 5) \<and>
   GenBreaker_callback HALFOPEN CLOSED frozen_clock (Container halfopen_breaker) 4 =
     Inr (Container halfopen_breaker, 8) \<and>
   Breaker_Succeed frozen_clock
     (halfopen_breaker\<lparr>halfopenSuccess := 1,
        options := (options halfopen_breaker)\<lparr>StateChangeHandler := Some GenBreaker_callback\<rparr>\<rparr>) 4 =
     Inr (halfopen_breaker\<lparr>halfopenSuccess := 2,
            options := (options halfopen_breaker)\<lparr>StateChangeHandler := Some GenBreaker_callback\<rparr>,
            Container := demo_window, state := CLOSED\<rparr>, 9) \<and>
   (\<exists>b' n'. Breaker_Succeed frozen_clock
        (halfopen_breaker\<lparr>halfopenSuccess := 1,
           options := (options halfopen_breaker)\<lparr>StateChangeHandler := Some GenBreaker_callback\<rparr>\<rparr>) 4 =
        Inr (b', n') \<and> state b' = CLOSED \<and> inWindow (Container b') = 1 \<and>
        conseErr (Container b') = 0)"
proof -
  let ?b1 = "halfopen_breaker\<lparr>halfopenSuccess := 1\<rparr>"
  let ?b = "halfopen_breaker\<lparr>halfopenSuccess := 1,
           options := (options halfopen_breaker)\<lparr>StateChangeHandler := Some GenBreaker_callback\<rparr>\<rparr>"
  have s: "state halfopen_breaker = HALFOPEN" "state ?b1 = HALFOPEN" "state ?b = HALFOPEN"
    by (simp_all add: halfopen_breaker_def)
  have t: "halfopenSuccess halfopen_breaker = 0" "HalfOpenSuccess (options halfopen_breaker) = 2"
    "HalfOpenSuccess (options ?b) = 2" "StateChangeHandler (options halfopen_breaker) = None"
    by (simp_all add: halfopen_breaker_def open_breaker_def demo_breaker_def demo_options_def)
  have w: "wf_window (Container ?b)"
    using wf_halfopen_breaker by simp
  have 1: "Breaker_Succeed frozen_clock halfopen_breaker 4 =
     Inr (halfopen_breaker\<lparr>halfopenSuccess := 1\<rparr>, 4)"
    using halfopen_succeed [OF s(1), of frozen_clock 4, THEN conjunct1] t by simp
  have p2: "halfopenSuccess ?b1 + 1 = HalfOpenSuccess (options ?b1) \<and>
          StateChangeHandler (options ?b1) = None"
    using t by simp
  from halfopen_succeed [OF s(2), of frozen_clock 4, THEN conjunct2, THEN conjunct1, THEN mp, OF p2]
  have 2: "Breaker_Succeed frozen_clock ?b1 4 =
     Inr (halfopen_breaker\<lparr>halfopenSuccess := 2, Container := demo_window, state := CLOSED\<rparr>, 5)"
    by (simp add: halfopen_window_Reset)
  have p3: "halfopenSuccess ?b + 1 = HalfOpenSuccess (options ?b) \<and>
          StateChangeHandler (options ?b) = Some GenBreaker_callback"
    using t by simp
  from halfopen_succeed [OF s(3), where h = GenBreaker_callback and clk = frozen_clock and n = 4,
      THEN conjunct2, THEN conjunct2, THEN conjunct1, THEN mp, OF p3]
  have 3: "Breaker_Succeed frozen_clock ?b 4 =
     Inr (halfopen_breaker\<lparr>halfopenSuccess := 2,
            options := (options halfopen_breaker)\<lparr>StateChangeHandler := Some GenBreaker_callback\<rparr>,
            Container := demo_window, state := CLOSED\<rparr>, 9)"
    by (simp add: halfopen_callback halfopen_window_Reset)
  have p4: "halfopenSuccess ?b + 1 = HalfOpenSuccess (options ?b) \<and> wf_window (Container ?b) \<and>
          (\<forall>h. StateChangeHandler (options ?b) = Some h \<longrightarrow> observer_handler h)"
    using t w observer_GenBreaker_callback by simp
  from halfopen_succeed [OF s(3), of frozen_clock 4, THEN conjunct2, THEN conjunct2,
      THEN conjunct2, THEN mp, OF p4]
  have 4: "\<exists>b' n'. Breaker_Succeed frozen_clock ?b 4 = Inr (b', n') \<and> state b' = CLOSED \<and>
        inWindow (Container b') = 1 \<and> conseErr (Container b') = 0"
    by blast
  show ?thesis
    using s(1) t(1,2,4) 1 2 3 4 halfopen_callback by (intro conjI)
qed

subsection \<open>C6: Reset\<close>

text \<open>
  Claim C6. For every breaker that has buckets at all (the constructor makes at least
  100), \<^verbatim>\<open>Reset\<close> returns, and right after it \<^verbatim>\<open>State()\<close> is CLOSED, \<^verbatim>\<open>ConsecutiveErrors()\<close>
  is 0 and \<^verbatim>\<open>Samples()\<close> returns 0, at whatever instant it is called. Only slot 0 was
  re-initialised: the other slots still hold what they held (last conjunct), and they do
  not contribute. The witness is a breaker with counts in three slots.
\<close>

theorem reset_round_trip:
  assumes "buckets (Container b) \<noteq> []"
  shows "\<exists>b' n'. Breaker_Reset clk b n = Inr (b', n') \<and> Breaker_State b' = CLOSED \<and>
           window_ConsecutiveErrors (Container b') = 0 \<and>
           (\<exists>m n''. window_Samples clk (Container b') n' = Inr (0, m, n'')) \<and>
           tl (buckets (Container b')) = tl (buckets (Container b))"
proof -
  note rs = window_Reset_shape [OF assms, of clk n]
  from window_Samples_after_Reset [OF assms rs] obtain m n'' where
    "window_Samples clk
       ((Container b)\<lparr>oldest := 0, latest := 0, inWindow := 1, conseErr := 0,
          buckets := \<lparr>failure = 0, success = 0, timeout = 0, timeStamp = clk n\<rparr> #
            tl (buckets (Container b))\<rparr>) (Suc n) = Inr (0, m, n'')"
    by blast
  then show ?thesis
    using rs
    by (simp add: Breaker_Reset_def Breaker_State_def window_ConsecutiveErrors_def)
qed

theorem reset_round_trip_witness:
  "buckets (Container busy_breaker) \<noteq> [] \<and>
   Breaker_State busy_breaker = OPEN \<and>
   window_ConsecutiveErrors (Container busy_breaker) = 5 \<and>
   failure (buckets (Container busy_breaker) ! 1) = 2 \<and>
   (\<exists>b' n'. Breaker_Reset (\<lambda>n. 200000001) busy_breaker 9 = Inr (b', n') \<and>
      Breaker_State b' = CLOSED \<and>
      window_ConsecutiveErrors (Container b') = 0 \<and>
      (\<exists>m n''. window_Samples (\<lambda>n. 200000001) (Container b') n' = Inr (0, m, n'')) \<and>
      tl (buckets (Container b')) = tl (buckets (Container busy_breaker)))"
proof -
  have ne: "buckets (Container busy_breaker) \<noteq> []"
    by (simp add: busy_breaker_def demo_window_def)
  have "Breaker_State busy_breaker = OPEN" "window_ConsecutiveErrors (Container busy_breaker) = 5"
    "failure (buckets (Container busy_breaker) ! 1) = 2"
    by (simp_all add: busy_breaker_def demo_window_def Breaker_State_def
        window_ConsecutiveErrors_def)
  then show ?thesis
    using reset_round_trip [OF ne, of "\<lambda>n. 200000001" 9] ne by simp
qed

subsection \<open>C10: a nil trip predicate\<close>

text \<open>
  Claim C10. \<^verbatim>\<open>FailWithTrip(nil)\<close> and \<^verbatim>\<open>TimeoutWithTrip(nil)\<close> on a CLOSED breaker with a
  well-formed window return normally (the nil predicate is never called, nothing
  panics), the outcome is recorded in the container (in the bucket at \<open>latest\<close> the
  failure, respectively timeout, counter is one more than in the bucket the write found,
  the other counters and the stamp are those of that bucket, and the streak is one
  longer), and the breaker stays CLOSED, with every field but the container as it was.
\<close>

theorem nil_trip_closed:
  assumes "state b = CLOSED" and "wf_window (Container b)"
  shows "(\<exists>m n'. Breaker_FailWithTrip None clk b n = Inr (b\<lparr>Container := m\<rparr>, n') \<and>
            state (b\<lparr>Container := m\<rparr>) = CLOSED \<and>
            failure_counted clk (Container b) n m \<and>
            conseErr m = conseErr (Container b) + 1) \<and>
         (\<exists>m n'. Breaker_TimeoutWithTrip None clk b n = Inr (b\<lparr>Container := m\<rparr>, n') \<and>
            state (b\<lparr>Container := m\<rparr>) = CLOSED \<and>
            timeout_counted clk (Container b) n m \<and>
            conseErr m = conseErr (Container b) + 1)"
  using record_outcome_wf [OF assms(2), of False clk n]
    record_outcome_wf [OF assms(2), of True clk n] assms(1)
  by (auto simp: Breaker_FailWithTrip_def Breaker_TimeoutWithTrip_def Breaker_error_def)

theorem nil_trip_closed_witness:
  "state demo_breaker = CLOSED \<and> wf_window (Container demo_breaker) \<and>
   writable_bucket frozen_clock (Container demo_breaker) 1 =
     \<lparr>failure = 0, success = 0, timeout = 0, timeStamp = 0\<rparr> \<and>
   conseErr (Container demo_breaker) = 0 \<and>
   (\<exists>m n'. Breaker_FailWithTrip None frozen_clock demo_breaker 1 =
        Inr (demo_breaker\<lparr>Container := m\<rparr>, n') \<and>
      state (demo_breaker\<lparr>Container := m\<rparr>) = CLOSED \<and>
      failure (current_bucket m) = 1 \<and> success (current_bucket m) = 0 \<and>
      timeout (current_bucket m) = 0 \<and> conseErr m = 1) \<and>
   (\<exists>m n'. Breaker_TimeoutWithTrip None frozen_clock demo_breaker 1 =
        Inr (demo_breaker\<lparr>Container := m\<rparr>, n') \<and>
      state (demo_breaker\<lparr>Container := m\<rparr>) = CLOSED \<and>
      timeout (current_bucket m) = 1 \<and> success (current_bucket m) = 0 \<and>
      failure (current_bucket m) = 0 \<and> conseErr m = 1)"
proof -
  have s: "state demo_breaker = CLOSED" "conseErr (Container demo_breaker) = 0"
    by (simp_all add: demo_breaker_def demo_window_def)
  show ?thesis
    using nil_trip_closed [OF s(1) wf_demo_breaker, of frozen_clock 1] s wf_demo_breaker
      demo_writable
    by (simp add: failure_counted_def timeout_counted_def) blast
qed

subsection \<open>C3: the clock\<close>

text \<open>
  Claim C3 says that every time comparison reads the \<open>now\<close> function of the options.
  \<^verbatim>\<open>NewBreaker\<close> stores that function in the breaker and in its options, and nothing ever
  calls it: \<^verbatim>\<open>isAllowed\<close>, \<^verbatim>\<open>error\<close>, \<^verbatim>\<open>bucket.Reset\<close>, \<^verbatim>\<open>latestBucket\<close> and \<^verbatim>\<open>expire\<close>
  call \<^verbatim>\<open>time.Now()\<close>. The code at a concrete input: the open breaker built above holds
  the clock that always reads 0, on which the cooling time never ends, yet \<^verbatim>\<open>IsAllowed\<close>
  admits once the system clock reads 5001 ms; \<^verbatim>\<open>isAllowed\<close> returns the same for every
  stored clock; and a breaker built with the frozen clock while the system clock reads 42
  stamps its first bucket 42.
\<close>

theorem injected_clock_not_read:
  "breaker_now open_breaker = Some frozen_clock \<and>
   now (options open_breaker) = Some frozen_clock \<and>
   (\<forall>n. frozen_clock n < openTime open_breaker + CoolingTimeout (options open_breaker)) \<and>
   fst (Breaker_IsAllowed (\<lambda>n. 5001000000) open_breaker 3) = True \<and>
   (\<forall>b f g clk n. Breaker_isAllowed clk (b\<lparr>breaker_now := f, options := (options b)\<lparr>now := g\<rparr>\<rparr>) n =
      (case Breaker_isAllowed clk b n of
         (r, b', n') \<Rightarrow> (r, b'\<lparr>breaker_now := f, options := (options b')\<lparr>now := g\<rparr>\<rparr>, n'))) \<and>
   (\<exists>b. NewBreaker (1 / 2) 10 (\<lambda>n. 42) (demo_options\<lparr>now := Some frozen_clock\<rparr>) 0 = Inr (b, 1) \<and>
      breaker_now b = Some frozen_clock \<and>
      timeStamp (current_bucket (Container b)) = 42)"
proof -
  have 1: "breaker_now open_breaker = Some frozen_clock \<and>
     now (options open_breaker) = Some frozen_clock \<and>
     (\<forall>n. frozen_clock n < openTime open_breaker + CoolingTimeout (options open_breaker)) \<and>
     fst (Breaker_IsAllowed (\<lambda>n. 5001000000) open_breaker 3) = True"
    by (simp add: open_breaker_def demo_breaker_def demo_options_def frozen_clock_def
        Breaker_IsAllowed_def Breaker_isAllowed_def)
  have 2: "\<forall>b f g clk n. Breaker_isAllowed clk (b\<lparr>breaker_now := f, options := (options b)\<lparr>now := g\<rparr>\<rparr>) n =
      (case Breaker_isAllowed clk b n of
         (r, b', n') \<Rightarrow> (r, b'\<lparr>breaker_now := f, options := (options b')\<lparr>now := g\<rparr>\<rparr>, n'))"
    by (simp add: Breaker_isAllowed_def Let_def split: State.splits)
  have 3: "\<exists>b. NewBreaker (1 / 2) 10 (\<lambda>n. 42) (demo_options\<lparr>now := Some frozen_clock\<rparr>) 0 = Inr (b, 1) \<and>
      breaker_now b = Some frozen_clock \<and>
      timeStamp (current_bucket (Container b)) = 42"
    by (simp add: NewBreaker_def NewBreaker_defaults_def demo_options_def
      NewWindowWithOptions_def window_Reset_def bucket_at_def bucket_Reset_def Let_def
      new_bucket_def current_bucket_def
      DEFAULT_BUCKET_TIME_def DEFAULT_BUCKET_NUMS_def DEFAULT_COOLING_TIMEOUT_def
      DEFAULT_DETECT_TIMEOUT_def DEFAULT_HALFOPEN_SUCCESSES_def)
  from 1 2 3 show ?thesis by blast
qed

subsection \<open>C7: the bounds of \<open>inWindow\<close>\<close>

text \<open>
  As stated, C7 says \<open>1 \<le> inWindow\<close> in every reachable state. \<^verbatim>\<open>expire\<close> loops while
  \<^verbatim>\<open>w.inWindow > 0\<close> and decrements: on a window built at 0 with the default 10 s
  length, a \<^verbatim>\<open>Counts\<close> at 10 s expires the only bucket and leaves \<open>inWindow = 0\<close>.
\<close>

theorem inWindow_zero_counterexample:
  "(case NewWindowWithOptions idle_clock 100000000 100 0 of
      Inl e \<Rightarrow> False
    | Inr (w0, n1) \<Rightarrow>
        inWindow w0 = 1 \<and>
        (case window_run idle_clock [Op_Counts] w0 n1 of
           Inl e \<Rightarrow> False
         | Inr (w, n) \<Rightarrow> inWindow w = 0 \<and> bucketNums w = 100))"
  by code_simp

text \<open>
  Claim C7, amended. After construction and any sequence of \<^verbatim>\<open>Succeed\<close>, \<^verbatim>\<open>Fail\<close>,
  \<^verbatim>\<open>Timeout\<close>, \<^verbatim>\<open>Counts\<close> and \<^verbatim>\<open>Reset\<close>, performed at any times (the clock is arbitrary, it
  may even go back), every operation has returned and \<open>0 \<le> inWindow \<le> bucketNums\<close>, with
  \<open>bucketNums\<close> the count given at construction.
\<close>

theorem inWindow_bounds:
  assumes "NewWindowWithOptions clk t k n0 = Inr (w0, n1)"
  shows "\<exists>w n. window_run clk ops w0 n1 = Inr (w, n) \<and>
           0 \<le> inWindow w \<and> inWindow w \<le> bucketNums w \<and> bucketNums w = k"
proof -
  from assms have k: "100 \<le> k"
    by (auto simp: NewWindowWithOptions_def split: if_splits)
  from NewWindowWithOptions_ok [OF k, of clk t n0] assms have "wf_window w0" "bucketNums w0 = k"
    by auto
  with window_run_wf [of w0 clk ops n1] show ?thesis
    by (auto simp: wf_window_def)
qed

theorem inWindow_bounds_witness:
  "NewWindowWithOptions frozen_clock 100000000 100 0 = Inr (demo_window, 1) \<and>
   (\<exists>w n. window_run frozen_clock [Op_Fail, Op_Counts, Op_Reset, Op_Succeed, Op_Timeout]
        demo_window 1 = Inr (w, n) \<and>
      0 \<le> inWindow w \<and> inWindow w \<le> bucketNums w \<and> bucketNums w = 100)"
  using inWindow_bounds [OF demo_window_built,
      of "[Op_Fail, Op_Counts, Op_Reset, Op_Succeed, Op_Timeout]"] demo_window_built
  by blast

subsection \<open>C8: what \<open>Samples\<close> sums\<close>




subsection \<open>C9: construction\<close>



end
